theory Spec2Isabelle
  imports Main "HOL-Library.Sublist"
begin

section \<open>A shallow embedding of aiorussound's RIO client (rio.py)\<close>

text \<open>
  The development follows \<^verbatim>\<open>src/aiorussound/rio.py\<close>. Every method of the class
  \<^verbatim>\<open>Russound\<close> that the properties below talk about is a function on a record of the
  object's attributes. A method that mutates the object returns the new record, also when
  it raises: the pair \<open>(Some e, st)\<close> or \<open>(Inl e, st)\<close> is "raised \<open>e\<close>, leaving the
  object as \<open>st\<close>".
\<close>

subsection \<open>Python strings\<close>

text \<open>
  A Python \<^verbatim>\<open>str\<close> is a list of code points below 256. \<^verbatim>\<open>str.lower\<close>,
  \<^verbatim>\<open>str.strip\<close> and \<^verbatim>\<open>int\<close> are written out for that range.
\<close>

definition py_lower_char :: "char \<Rightarrow> char" where
  "py_lower_char c =
     (let n = (of_char c :: nat)
      in if (65 \<le> n \<and> n \<le> 90) \<or> (192 \<le> n \<and> n \<le> 222 \<and> n \<noteq> 215)
         then char_of (n + 32) else c)"

definition py_lower :: "string \<Rightarrow> string" where
  "py_lower s = map py_lower_char s"

definition py_isspace :: "char \<Rightarrow> bool" where
  "py_isspace c =
     (let n = (of_char c :: nat)
      in (9 \<le> n \<and> n \<le> 13) \<or> (28 \<le> n \<and> n \<le> 32) \<or> n = 133 \<or> n = 160)"

definition py_strip :: "string \<Rightarrow> string" where
  "py_strip s = rev (dropWhile py_isspace (rev (dropWhile py_isspace s)))"

definition is_digit :: "char \<Rightarrow> bool" where
  "is_digit c = (48 \<le> (of_char c :: nat) \<and> (of_char c :: nat) \<le> 57)"

definition digit_val :: "char \<Rightarrow> nat" where
  "digit_val c = of_char c - 48"

text \<open>Digits after the first one; a single underscore may stand between two digits.\<close>

fun parse_digits :: "nat \<Rightarrow> string \<Rightarrow> nat option" where
  "parse_digits acc [] = Some acc"
| "parse_digits acc [c] = (if is_digit c then Some (10 * acc + digit_val c) else None)"
| "parse_digits acc (c # d # cs) =
     (if is_digit c then parse_digits (10 * acc + digit_val c) (d # cs)
      else if c = CHR ''_'' \<and> is_digit d then parse_digits (10 * acc + digit_val d) cs
      else None)"

text \<open>
  An unsigned decimal literal. \<^verbatim>\<open>int\<close> refuses a string of more than 4300 digits
  (the default of \<^verbatim>\<open>sys.set_int_max_str_digits\<close>), underscores not counted.
\<close>

definition py_nat :: "string \<Rightarrow> nat option" where
  "py_nat s = (case s of [] \<Rightarrow> None
               | c # cs \<Rightarrow>
                   if is_digit c \<and> length (filter is_digit s) \<le> 4300
                   then parse_digits (digit_val c) cs else None)"

text \<open>
  The white space that \<^verbatim>\<open>int\<close> skips at both ends of a string: the ASCII white space
  of C (tab to carriage return, and the space) and, of the code points from 128 on, the
  Unicode spaces, which are replaced by a space before parsing. The separators
  \<^verbatim>\<open>0x1c\<close> to \<^verbatim>\<open>0x1f\<close>, which \<^verbatim>\<open>str.strip\<close> removes, are not skipped.
\<close>

definition int_isspace :: "char \<Rightarrow> bool" where
  "int_isspace c =
     (let n = (of_char c :: nat)
      in (9 \<le> n \<and> n \<le> 13) \<or> n = 32 \<or> n = 133 \<or> n = 160)"

definition int_strip :: "string \<Rightarrow> string" where
  "int_strip s = rev (dropWhile int_isspace (rev (dropWhile int_isspace s)))"

text \<open>\<^verbatim>\<open>int(s)\<close> for a string: \<open>None\<close> is ValueError.\<close>

definition py_int :: "string \<Rightarrow> int option" where
  "py_int s =
     (case int_strip s of [] \<Rightarrow> None
      | c # cs \<Rightarrow>
          if c = CHR ''-'' then map_option (\<lambda>n. - int n) (py_nat cs)
          else if c = CHR ''+'' then map_option int (py_nat cs)
          else map_option int (py_nat (c # cs)))"

subsection \<open>Exceptions, values and the observable trace\<close>

datatype exn =
    CommandError string
  | UncachedVariableError
  | UnsupportedFeatureError
  | CancelledError
  | TimeoutError
  | ConnectionResetError
  | KeyError
  | ValueError
  | TypeError
  | AttributeError
  | IndexError
  | UnicodeDecodeError
  | InvalidStateError
  | OtherException string

text \<open>A value that is a \<^verbatim>\<open>str\<close> or \<^verbatim>\<open>None\<close>.\<close>

type_synonym pystr = "string option"

text \<open>
  Callbacks are opaque to the program: a callback is a number, and calling it is recorded.
  A callback that raises, or that calls back into the object, is outside the model.
  The trace records, in order, what the object does to the outside: the bytes written to
  the transport (with the future of the command they belong to), the resolution of a
  command's future, the stores into the cache and the callback invocations.
\<close>

datatype action =
    Written nat string
  | Resolved nat "exn + pystr"
  | Stored string string pystr
  | Called nat string string pystr
  | ConnCalled nat bool
  | WriterClosed

subsection \<open>The object\<close>

record zone =
  zone_controller_id :: int
  zone_id :: int

record controller =
  controller_id :: int
  zones :: "(int \<times> zone) list"

record source =
  source_id :: int

text \<open>
  Dictionaries whose iteration order the code depends on (\<^verbatim>\<open>_callbacks\<close>,
  \<^verbatim>\<open>_watched_devices\<close>, \<^verbatim>\<open>_controllers\<close>, \<^verbatim>\<open>zones\<close>) are association lists in insertion
  order with distinct keys; the others are maps. \<open>cmd_queue\<close> is the content of the
  \<^verbatim>\<open>asyncio.Queue\<close>. \<open>queue_future\<close> is the local variable of that name of the running
  \<^verbatim>\<open>_ioloop\<close>: the item that its \<^verbatim>\<open>self._cmd_queue.get()\<close> has taken off the queue and
  that the loop has not looked at yet, \<open>None\<close> while the \<^verbatim>\<open>get\<close> is pending.
  \<open>next_future\<close>, \<open>results\<close> and \<open>trace\<close> are not attributes: they name the futures
  \<^verbatim>\<open>send_cmd\<close> creates, hold what each future was resolved with (\<open>None\<close>: pending) and
  record the actions.
\<close>

record russound =
  cmd_queue :: "(string \<times> nat) list"
  queue_future :: "(string \<times> nat) option"
  dev_state :: "string \<rightharpoonup> (string \<rightharpoonup> pystr)"
  callbacks :: "(string \<times> nat list) list"
  connection_callbacks :: "nat list"
  connection_started :: bool
  watched_devices :: "(string \<times> bool) list"
  controllers :: "(int \<times> controller) list"
  sources :: "int \<rightharpoonup> source"
  rio_version :: pystr
  connected :: bool
  next_future :: nat
  results :: "nat \<rightharpoonup> (exn + pystr)"
  trace :: "action list"

text \<open>\<^verbatim>\<open>Russound.__init__\<close>.\<close>

definition init :: russound where
  "init = \<lparr> cmd_queue = [], queue_future = None, dev_state = Map.empty, callbacks = [],
            connection_callbacks = [], connection_started = False, watched_devices = [],
            controllers = [], sources = Map.empty, rio_version = None, connected = False,
            next_future = 0, results = Map.empty, trace = [] \<rparr>"

subsection \<open>What rio.py imports from const.py and util.py\<close>

text \<open>
  \<^verbatim>\<open>RESPONSE_REGEX\<close>, \<^verbatim>\<open>MINIMUM_API_SUPPORT\<close>, \<^verbatim>\<open>source_device_str\<close>, \<^verbatim>\<open>zone_device_str\<close>
  and \<^verbatim>\<open>is_fw_version_higher\<close> are defined outside rio.py. They are parameters of the
  model. \<open>response_regex\<close> is \<^verbatim>\<open>RESPONSE_REGEX.match(payload)\<close> followed by
  \<^verbatim>\<open>groupdict()\<close>: \<open>None\<close> when the pattern does not match, and otherwise the six named
  groups the code reads, each a string or \<^verbatim>\<open>None\<close>.
\<close>

record groups =
  g_source :: pystr
  g_controller :: pystr
  g_zone :: pystr
  g_variable :: pystr
  g_value :: pystr
  g_value_only :: pystr

record env =
  response_regex :: "string \<Rightarrow> groups option"
  source_device_str :: "int \<Rightarrow> string"
  zone_device_str :: "int \<Rightarrow> int \<Rightarrow> string"
  is_fw_version_higher :: "pystr \<Rightarrow> string \<Rightarrow> bool"
  minimum_api_support :: string

subsection \<open>Dictionaries in insertion order\<close>

text \<open>\<^verbatim>\<open>d[k] = v\<close>: an existing key keeps its place, a new key goes to the end.\<close>

fun dict_set :: "'k \<Rightarrow> 'v \<Rightarrow> ('k \<times> 'v) list \<Rightarrow> ('k \<times> 'v) list" where
  "dict_set k v [] = [(k, v)]"
| "dict_set k v ((k', v') # kvs) =
     (if k' = k then (k, v) # kvs else (k', v') # dict_set k v kvs)"

text \<open>\<^verbatim>\<open>del d[k]\<close> for a key that is present.\<close>

fun dict_del :: "'k \<Rightarrow> ('k \<times> 'v) list \<Rightarrow> ('k \<times> 'v) list" where
  "dict_del k [] = []"
| "dict_del k ((k', v') # kvs) = (if k' = k then kvs else (k', v') # dict_del k kvs)"

text \<open>\<^verbatim>\<open>self._callbacks.get(device_str, [])\<close>.\<close>

definition callbacks_get :: "russound \<Rightarrow> string \<Rightarrow> nat list" where
  "callbacks_get st device_str =
     (case map_of (callbacks st) device_str of None \<Rightarrow> [] | Some cbs \<Rightarrow> cbs)"

subsection \<open>The variable cache\<close>

text \<open>\<^verbatim>\<open>_retrieve_cached_variable\<close>: both lookups raise KeyError, turned into the uncached signal.\<close>

definition retrieve_cached_variable :: "russound \<Rightarrow> string \<Rightarrow> string \<Rightarrow> exn + pystr" where
  "retrieve_cached_variable st device_str key =
     (case dev_state st device_str of
        None \<Rightarrow> Inl UncachedVariableError
      | Some zone_state \<Rightarrow>
          (case zone_state (py_lower key) of
             None \<Rightarrow> Inl UncachedVariableError
           | Some s \<Rightarrow> Inr s))"

text \<open>\<^verbatim>\<open>get_cached_variable\<close>.\<close>

definition get_cached_variable :: "russound \<Rightarrow> string \<Rightarrow> string \<Rightarrow> pystr \<Rightarrow> pystr" where
  "get_cached_variable st device_str key dflt =
     (case retrieve_cached_variable st device_str key of
        Inr s \<Rightarrow> s
      | Inl e \<Rightarrow> dflt)"

text \<open>\<^verbatim>\<open>Zone.device_str\<close>, \<^verbatim>\<open>Zone.current_source\<close> and \<^verbatim>\<open>Zone.fetch_current_source\<close>.\<close>

definition zone_dev :: "env \<Rightarrow> zone \<Rightarrow> string" where
  "zone_dev E z = zone_device_str E (zone_controller_id z) (zone_id z)"

definition current_source :: "env \<Rightarrow> russound \<Rightarrow> zone \<Rightarrow> pystr" where
  "current_source E st z = get_cached_variable st (zone_dev E z) ''currentSource'' (Some ''1'')"

definition fetch_current_source :: "env \<Rightarrow> russound \<Rightarrow> zone \<Rightarrow> exn + source" where
  "fetch_current_source E st z =
     (case current_source E st z of
        None \<Rightarrow> Inl TypeError
      | Some s \<Rightarrow>
          (case py_int s of
             None \<Rightarrow> Inl ValueError
           | Some n \<Rightarrow>
               (case sources st n of
                  None \<Rightarrow> Inl KeyError
                | Some src \<Rightarrow> Inr src)))"

text \<open>The calls of one \<^verbatim>\<open>for callback in ...: callback(device_str, key, value)\<close> loop.\<close>

definition call_all :: "nat list \<Rightarrow> string \<Rightarrow> string \<Rightarrow> pystr \<Rightarrow> russound \<Rightarrow> russound" where
  "call_all cbs device_str key v st =
     st\<lparr>trace := trace st @ map (\<lambda>cb. Called cb device_str key v) cbs\<rparr>"

text \<open>
  The loop over \<^verbatim>\<open>controller.zones.values()\<close> of every controller, on the zones in
  iteration order. An exception of \<^verbatim>\<open>fetch_current_source\<close> leaves the loop.
\<close>

fun source_callback :: "env \<Rightarrow> string \<Rightarrow> string \<Rightarrow> pystr \<Rightarrow> zone list \<Rightarrow> russound
    \<Rightarrow> exn option \<times> russound" where
  "source_callback E device_str key v [] st = (None, st)"
| "source_callback E device_str key v (z # zs) st =
     (case fetch_current_source E st z of
        Inl e \<Rightarrow> (Some e, st)
      | Inr src \<Rightarrow>
          source_callback E device_str key v zs
            (if source_device_str E (source_id src) = device_str
             then call_all (callbacks_get st (zone_dev E z)) device_str key v st
             else st))"

definition all_zones :: "russound \<Rightarrow> zone list" where
  "all_zones st = concat (map (\<lambda>(cid, c). map snd (zones c)) (controllers st))"

text \<open>\<^verbatim>\<open>zone_state = self._state.setdefault(device_str, {})\<close>.\<close>

definition zone_state_of :: "russound \<Rightarrow> string \<Rightarrow> (string \<rightharpoonup> pystr)" where
  "zone_state_of st device_str =
     (case dev_state st device_str of None \<Rightarrow> Map.empty | Some zs \<Rightarrow> zs)"

text \<open>\<^verbatim>\<open>_store_cached_variable\<close> for a key that is a string.\<close>

definition store_cached_variable :: "env \<Rightarrow> string \<Rightarrow> string \<Rightarrow> pystr \<Rightarrow> russound
    \<Rightarrow> exn option \<times> russound" where
  "store_cached_variable E device_str key0 v st =
     (let key = py_lower key0;
          st1 = st\<lparr>dev_state := (dev_state st)(device_str \<mapsto> (zone_state_of st device_str)(key \<mapsto> v)),
                   trace := trace st @ [Stored device_str key v]\<rparr>;
          st2 = call_all (callbacks_get st1 device_str) device_str key v st1
      in case device_str of
           [] \<Rightarrow> (Some IndexError, st2)
         | c # cs \<Rightarrow>
             if c = CHR ''S'' then source_callback E device_str key v (all_zones st2) st2
             else (None, st2))"

text \<open>
  The same call when the key may be \<^verbatim>\<open>None\<close> (a group that did not take part in the
  match): \<^verbatim>\<open>key.lower()\<close> raises AttributeError after \<^verbatim>\<open>setdefault\<close> has run.
\<close>

definition store_group :: "env \<Rightarrow> string \<Rightarrow> pystr \<Rightarrow> pystr \<Rightarrow> russound \<Rightarrow> exn option \<times> russound" where
  "store_group E device_str key v st =
     (case key of
        None \<Rightarrow> (Some AttributeError,
                 st\<lparr>dev_state := (dev_state st)(device_str \<mapsto> zone_state_of st device_str)\<rparr>)
      | Some k \<Rightarrow> store_cached_variable E device_str k v st)"

subsection \<open>The response parser\<close>

text \<open>
  What \<^verbatim>\<open>reader.readline()\<close> returns: bytes that decode as UTF-8 to a text, or bytes
  that do not. End of stream is the empty \<^verbatim>\<open>bytes\<close>, \<open>Utf8 []\<close>.
\<close>

datatype bytes = Utf8 string | NotUtf8

text \<open>Python's truth value of a group: neither \<^verbatim>\<open>None\<close> nor empty.\<close>

definition truthy :: "pystr \<Rightarrow> bool" where
  "truthy v = (case v of None \<Rightarrow> False | Some s \<Rightarrow> s \<noteq> [])"

text \<open>\<^verbatim>\<open>int(p["..."])\<close> of a group: TypeError on \<^verbatim>\<open>None\<close>, ValueError on a non-number.\<close>

definition int_of_group :: "pystr \<Rightarrow> exn + int" where
  "int_of_group v =
     (case v of
        None \<Rightarrow> Inl TypeError
      | Some s \<Rightarrow> (case py_int s of None \<Rightarrow> Inl ValueError | Some n \<Rightarrow> Inr n))"

text \<open>\<^verbatim>\<open>p["value"] or p["value_only"]\<close>.\<close>

definition value_or_value_only :: "groups \<Rightarrow> pystr" where
  "value_or_value_only p = (if truthy (g_value p) then g_value p else g_value_only p)"

text \<open>The two branches of \<^verbatim>\<open>_process_response\<close> that store an addressed variable.\<close>

definition store_match :: "env \<Rightarrow> groups \<Rightarrow> russound \<Rightarrow> exn option \<times> russound" where
  "store_match E p st =
     (if truthy (g_source p) then
        (case int_of_group (g_source p) of
           Inl e \<Rightarrow> (Some e, st)
         | Inr sid \<Rightarrow> store_group E (source_device_str E sid) (g_variable p) (g_value p) st)
      else if truthy (g_zone p) then
        (case int_of_group (g_controller p) of
           Inl e \<Rightarrow> (Some e, st)
         | Inr cid \<Rightarrow>
             (case int_of_group (g_zone p) of
                Inl e \<Rightarrow> (Some e, st)
              | Inr zid \<Rightarrow>
                  store_group E (zone_device_str E cid zid) (g_variable p) (g_value p) st))
      else (None, st))"

text \<open>\<^verbatim>\<open>_process_response\<close>: the result is the pair \<^verbatim>\<open>(ty, value)\<close> or the exception raised.\<close>

definition process_response :: "env \<Rightarrow> bytes \<Rightarrow> russound
    \<Rightarrow> (exn + (char option \<times> pystr)) \<times> russound" where
  "process_response E res st =
     (case res of
        NotUtf8 \<Rightarrow> (Inl UnicodeDecodeError, st)
      | Utf8 t \<Rightarrow>
          (case py_strip t of
             [] \<Rightarrow> (Inr (None, None), st)
           | ty # rest \<Rightarrow>
               let payload = drop 1 rest in
               if ty = CHR ''E'' then (Inl (CommandError payload), st)
               else
                 (case response_regex E payload of
                    None \<Rightarrow> (Inr (Some ty, None), st)
                  | Some p \<Rightarrow>
                      (case store_match E p st of
                         (Some e, st') \<Rightarrow> (Inl e, st')
                       | (None, st') \<Rightarrow> (Inr (Some ty, value_or_value_only p), st')))))"

subsection \<open>Futures, connection state and \<^verbatim>\<open>send_cmd\<close>\<close>

text \<open>
  \<^verbatim>\<open>future.set_result\<close> and \<^verbatim>\<open>future.set_exception\<close>: a future that is already done
  raises InvalidStateError.
\<close>

definition resolve :: "nat \<Rightarrow> exn + pystr \<Rightarrow> russound \<Rightarrow> exn option \<times> russound" where
  "resolve f outcome st =
     (case results st f of
        Some r \<Rightarrow> (Some InvalidStateError, st)
      | None \<Rightarrow> (None, st\<lparr>results := (results st)(f \<mapsto> outcome),
                          trace := trace st @ [Resolved f outcome]\<rparr>))"

text \<open>\<^verbatim>\<open>_set_connected\<close>.\<close>

definition set_connected :: "bool \<Rightarrow> russound \<Rightarrow> russound" where
  "set_connected b st =
     st\<lparr>connected := b,
        trace := trace st @ map (\<lambda>cb. ConnCalled cb b) (connection_callbacks st)\<rparr>"

text \<open>
  \<^verbatim>\<open>send_cmd\<close> up to its \<^verbatim>\<open>await future\<close>: a new future is made and put on the queue with
  the command. The caller then waits until \<open>results\<close> has an entry for the future.
\<close>

definition send_cmd :: "string \<Rightarrow> russound \<Rightarrow> nat \<times> russound" where
  "send_cmd cmd st =
     (next_future st,
      st\<lparr>cmd_queue := cmd_queue st @ [(cmd, next_future st)],
         next_future := Suc (next_future st)\<rparr>)"

subsection \<open>The session loop\<close>

text \<open>
  \<^verbatim>\<open>_ioloop\<close> is a coroutine: it runs from one \<^verbatim>\<open>await\<close> to the next. Where it is
  suspended is its \<open>mode\<close>: in \<^verbatim>\<open>asyncio.wait\<close> of the outer loop (\<open>Outer\<close>), in
  \<^verbatim>\<open>await net_future\<close> of the inner loop with the future of the command in flight
  (\<open>Inner f\<close>), or left through an exception (\<open>Exited e again inflight\<close>: the exception, whether
  the \<^verbatim>\<open>finally\<close> block goes on to call \<^verbatim>\<open>connect\<close> again, and the future that was
  in flight, if any).
\<close>

datatype mode = Outer | Inner nat | Exited exn bool "nat option"

text \<open>What completes \<^verbatim>\<open>net_future\<close>: a line that was read, or an exception of the read.\<close>

datatype net_result = Recv bytes | RecvRaises exn

text \<open>
  A schedule lists what happens, in order. \<open>Put cmd\<close>: some task calls \<^verbatim>\<open>send_cmd(cmd)\<close>.
  \<open>Got\<close>: the pending \<^verbatim>\<open>self._cmd_queue.get()\<close> of the loop takes the first item off the
  queue and \<^verbatim>\<open>queue_future\<close> is done. \<open>WakeNet r\<close>: the loop is resumed with
  \<^verbatim>\<open>net_future\<close> done (in the inner loop: \<^verbatim>\<open>await net_future\<close> returns) and runs
  the branch \<^verbatim>\<open>if net_future in done\<close>. \<open>WakeQueue w\<close>: the loop runs the branch
  \<^verbatim>\<open>if queue_future in done\<close>; \<open>w\<close> is the exception of \<^verbatim>\<open>writer.drain()\<close>, if it
  raises. \<open>WakeBoth r w\<close>: \<^verbatim>\<open>asyncio.wait\<close> returns with both futures done and both
  branches run, which is \<open>WakeNet r\<close> followed by \<open>WakeQueue w\<close> where the first does not end
  the loop. \<open>Cancel\<close>: the task is cancelled, CancelledError is raised at the \<^verbatim>\<open>await\<close>
  where it is suspended.
\<close>

datatype tick =
    Put string
  | Got
  | WakeNet net_result
  | WakeQueue "exn option"
  | WakeBoth net_result "exn option"
  | Cancel

text \<open>
  The \<^verbatim>\<open>except\<close> clauses and the \<^verbatim>\<open>finally\<close> block, up to the decision to reconnect.
  The handlers of CancelledError and of \<^verbatim>\<open>Exception\<close> call \<^verbatim>\<open>_set_connected(False)\<close>
  and re-raise; those of TimeoutError and ConnectionResetError only log.
  \<^verbatim>\<open>queue_future.cancel()\<close> ends a pending \<^verbatim>\<open>get\<close> and does nothing to one that is
  done: either way the loop's \<^verbatim>\<open>queue_future\<close> is gone, and with it the item it held.
\<close>

definition exit_loop :: "bool \<Rightarrow> exn \<Rightarrow> nat option \<Rightarrow> russound \<Rightarrow> mode \<times> russound" where
  "exit_loop reconnect e inflight st =
     (let st1 = (if e = TimeoutError \<or> e = ConnectionResetError then st
                 else set_connected False st);
          st2 = set_connected False
                  (st1\<lparr>queue_future := None, trace := trace st1 @ [WriterClosed]\<rparr>)
      in (Exited e (reconnect \<and> connection_started st2) inflight, st2))"

text \<open>\<^verbatim>\<open>if net_future in done:\<close> of the outer loop. A CommandError is passed over.\<close>

definition outer_net :: "env \<Rightarrow> bool \<Rightarrow> net_result \<Rightarrow> russound \<Rightarrow> mode \<times> russound" where
  "outer_net E reconnect r st =
     (case r of
        RecvRaises e \<Rightarrow> exit_loop reconnect e None st
      | Recv response \<Rightarrow>
          (case process_response E response st of
             (Inl (CommandError m), st') \<Rightarrow> (Outer, st')
           | (Inl e, st') \<Rightarrow> exit_loop reconnect e None st'
           | (Inr tv, st') \<Rightarrow> (Outer, st')))"

text \<open>
  \<^verbatim>\<open>if queue_future in done:\<close> up to the first \<^verbatim>\<open>await net_future\<close>: the item of
  \<^verbatim>\<open>queue_future\<close> is written and a new \<^verbatim>\<open>get\<close> is started. \<open>None\<close>:
  \<^verbatim>\<open>queue_future\<close> is not done, the tick cannot happen.
\<close>

definition outer_queue :: "bool \<Rightarrow> exn option \<Rightarrow> russound \<Rightarrow> (mode \<times> russound) option" where
  "outer_queue reconnect w st =
     (case queue_future st of
        None \<Rightarrow> None
      | Some (cmd, future) \<Rightarrow>
          let st1 = st\<lparr>trace := trace st @ [Written future (cmd @ [CHR 0x0D])]\<rparr>
          in (case w of
                Some e \<Rightarrow> Some (exit_loop reconnect e (Some future) st1)
              | None \<Rightarrow> Some (Inner future, st1\<lparr>queue_future := None\<rparr>)))"

text \<open>
  The pending \<^verbatim>\<open>get\<close> completes. \<open>None\<close>: no \<^verbatim>\<open>get\<close> is pending, or the queue is
  empty.
\<close>

definition queue_get :: "russound \<Rightarrow> russound option" where
  "queue_get st =
     (case queue_future st of
        Some item \<Rightarrow> None
      | None \<Rightarrow>
          (case cmd_queue st of
             [] \<Rightarrow> None
           | item # q \<Rightarrow> Some (st\<lparr>cmd_queue := q, queue_future := Some item\<rparr>)))"

text \<open>One round of the inner \<^verbatim>\<open>while True\<close>.\<close>

definition inner_net :: "env \<Rightarrow> bool \<Rightarrow> nat \<Rightarrow> net_result \<Rightarrow> russound \<Rightarrow> mode \<times> russound" where
  "inner_net E reconnect future r st =
     (case r of
        RecvRaises e \<Rightarrow> exit_loop reconnect e (Some future) st
      | Recv response \<Rightarrow>
          (case process_response E response st of
             (Inr (ty, v), st') \<Rightarrow>
               if ty = Some (CHR ''S'') then
                 (case resolve future (Inr v) st' of
                    (None, st'') \<Rightarrow> (Outer, st'')
                  | (Some e, st'') \<Rightarrow> exit_loop reconnect e (Some future) st'')
               else (Inner future, st')
           | (Inl (CommandError m), st') \<Rightarrow>
               (case resolve future (Inl (CommandError m)) st' of
                  (None, st'') \<Rightarrow> (Outer, st'')
                | (Some e, st'') \<Rightarrow> exit_loop reconnect e (Some future) st'')
           | (Inl e, st') \<Rightarrow> exit_loop reconnect e (Some future) st'))"

text \<open>One tick. \<open>None\<close>: the tick cannot happen where the loop is.\<close>

definition step :: "env \<Rightarrow> bool \<Rightarrow> tick \<Rightarrow> mode \<times> russound \<Rightarrow> (mode \<times> russound) option" where
  "step E reconnect t cfg =
     (case cfg of (m, st) \<Rightarrow>
        (case t of
           Put cmd \<Rightarrow> Some (m, snd (send_cmd cmd st))
         | Got \<Rightarrow>
             (case m of
                Exited e a i \<Rightarrow> None
              | _ \<Rightarrow> map_option (Pair m) (queue_get st))
         | WakeNet r \<Rightarrow>
             (case m of
                Outer \<Rightarrow> Some (outer_net E reconnect r st)
              | Inner future \<Rightarrow> Some (inner_net E reconnect future r st)
              | Exited e a i \<Rightarrow> None)
         | WakeQueue w \<Rightarrow>
             (case m of
                Outer \<Rightarrow> outer_queue reconnect w st
              | Inner future \<Rightarrow> None
              | Exited e a i \<Rightarrow> None)
         | WakeBoth r w \<Rightarrow>
             (case m of
                Outer \<Rightarrow>
                  (if queue_future st = None then None
                   else (case outer_net E reconnect r st of
                           (Outer, st') \<Rightarrow> outer_queue reconnect w st'
                         | (m', st') \<Rightarrow> Some (m', st')))
              | Inner future \<Rightarrow> None
              | Exited e a i \<Rightarrow> None)
         | Cancel \<Rightarrow>
             (case m of
                Outer \<Rightarrow> Some (exit_loop reconnect CancelledError None st)
              | Inner future \<Rightarrow> Some (exit_loop reconnect CancelledError (Some future) st)
              | Exited e a i \<Rightarrow> None)))"

fun run :: "env \<Rightarrow> bool \<Rightarrow> tick list \<Rightarrow> mode \<times> russound \<Rightarrow> (mode \<times> russound) option" where
  "run E reconnect [] cfg = Some cfg"
| "run E reconnect (t # ts) cfg =
     (case step E reconnect t cfg of
        None \<Rightarrow> None
      | Some cfg' \<Rightarrow> run E reconnect ts cfg')"

subsection \<open>Callback registration\<close>

text \<open>\<^verbatim>\<open>add_callback\<close>.\<close>

definition add_callback :: "string \<Rightarrow> nat \<Rightarrow> russound \<Rightarrow> russound" where
  "add_callback device_str cb st =
     st\<lparr>callbacks := dict_set device_str (callbacks_get st device_str @ [cb]) (callbacks st)\<rparr>"

text \<open>
  \<^verbatim>\<open>remove_callback\<close>: the loop over \<^verbatim>\<open>self._callbacks.values()\<close>. \<^verbatim>\<open>list.remove\<close>
  takes out the first occurrence and raises ValueError when there is none; the lists
  already visited stay changed.
\<close>

fun remove_from_all :: "nat \<Rightarrow> (string \<times> nat list) list \<Rightarrow> exn option \<times> (string \<times> nat list) list" where
  "remove_from_all cb [] = (None, [])"
| "remove_from_all cb ((d, cbs) # rest) =
     (if cb \<in> set cbs
      then (case remove_from_all cb rest of (r, rest') \<Rightarrow> (r, (d, remove1 cb cbs) # rest'))
      else (Some ValueError, (d, cbs) # rest))"

definition remove_callback :: "nat \<Rightarrow> russound \<Rightarrow> exn option \<times> russound" where
  "remove_callback cb st =
     (case remove_from_all cb (callbacks st) of (r, cbs') \<Rightarrow> (r, st\<lparr>callbacks := cbs'\<rparr>))"

subsection \<open>The watch registry\<close>

text \<open>
  A coroutine that awaits the future of a command is cut at the \<^verbatim>\<open>await\<close>: the
  function gives the state when the coroutine suspends and the future it waits for.
\<close>

definition watch_cmd :: "string \<Rightarrow> string" where
  "watch_cmd device_str = ''WATCH '' @ device_str @ '' ON''"

definition unwatch_cmd :: "string \<Rightarrow> string" where
  "unwatch_cmd device_str = ''WATCH '' @ device_str @ '' OFF''"

text \<open>\<^verbatim>\<open>watch\<close>, up to \<^verbatim>\<open>await future\<close>.\<close>

definition watch :: "string \<Rightarrow> russound \<Rightarrow> nat \<times> russound" where
  "watch device_str st =
     send_cmd (watch_cmd device_str)
       (st\<lparr>watched_devices := dict_set device_str True (watched_devices st)\<rparr>)"

text \<open>\<^verbatim>\<open>unwatch\<close>, up to \<^verbatim>\<open>await future\<close>: \<^verbatim>\<open>del\<close> raises KeyError for a missing key.\<close>

definition unwatch :: "string \<Rightarrow> russound \<Rightarrow> (exn + nat) \<times> russound" where
  "unwatch device_str st =
     (if device_str \<in> fst ` set (watched_devices st)
      then (case send_cmd (unwatch_cmd device_str)
                   (st\<lparr>watched_devices := dict_del device_str (watched_devices st)\<rparr>) of
              (f, st') \<Rightarrow> (Inr f, st'))
      else (Inl KeyError, st))"

text \<open>
  How far a coroutine with several awaits gets when the futures it awaits are resolved
  with the given outcomes, in order: it returns, raises, or waits for a future.
\<close>

datatype coro = Returned | Raised exn | Awaiting nat

text \<open>
  \<^verbatim>\<open>_watch_cached_devices\<close> on the keys of \<^verbatim>\<open>_watched_devices\<close>: each \<^verbatim>\<open>watch\<close> is
  awaited before the next one starts, and an exception of it ends the loop.
\<close>

fun watch_devices :: "string list \<Rightarrow> (exn + pystr) list \<Rightarrow> russound \<Rightarrow> coro \<times> russound" where
  "watch_devices [] rs st = (Returned, st)"
| "watch_devices (d # ds) rs st =
     (case watch d st of
        (f, st') \<Rightarrow>
          (case rs of
             [] \<Rightarrow> (Awaiting f, st')
           | Inl e # rs' \<Rightarrow> (Raised e, st')
           | Inr v # rs' \<Rightarrow> watch_devices ds rs' st'))"

definition watch_cached_devices :: "(exn + pystr) list \<Rightarrow> russound \<Rightarrow> coro \<times> russound" where
  "watch_cached_devices rs st = watch_devices (map fst (watched_devices st)) rs st"

subsection \<open>Connecting and closing\<close>

text \<open>
  \<^verbatim>\<open>connect\<close> up to \<^verbatim>\<open>await self.send_cmd("VERSION")\<close>: the connection is opened and a
  session loop is started, suspended in its first \<^verbatim>\<open>asyncio.wait\<close> with its own
  \<^verbatim>\<open>queue_future\<close> pending.
\<close>

definition connect_begin :: "russound \<Rightarrow> nat \<times> (mode \<times> russound)" where
  "connect_begin st =
     (case send_cmd ''VERSION'' (st\<lparr>connection_started := True, queue_future := None\<rparr>) of
        (f, st') \<Rightarrow> (f, (Outer, st')))"

text \<open>
  The end of the \<^verbatim>\<open>finally\<close> block of \<^verbatim>\<open>_ioloop\<close>: after the delay the loop that has
  ended calls \<^verbatim>\<open>connect\<close> again, on the same object and so on the same queue. \<open>None\<close>:
  the loop has not ended, or it ended without reconnecting.
\<close>

definition reconnect_begin :: "mode \<times> russound \<Rightarrow> (nat \<times> (mode \<times> russound)) option" where
  "reconnect_begin cfg =
     (case cfg of
        (Exited e True inflight, st) \<Rightarrow> Some (connect_begin st)
      | (m, st) \<Rightarrow> None)"

text \<open>
  \<^verbatim>\<open>connect\<close> from the resolution of the VERSION future on: \<open>reply\<close> is what the future
  was resolved with, \<open>rs\<close> the outcomes of the futures of the watch replay.
\<close>

definition connect_resume :: "env \<Rightarrow> exn + pystr \<Rightarrow> (exn + pystr) list \<Rightarrow> russound
    \<Rightarrow> coro \<times> russound" where
  "connect_resume E reply rs st =
     (case reply of
        Inl e \<Rightarrow> (Raised e, st)
      | Inr v \<Rightarrow>
          let st1 = st\<lparr>rio_version := v\<rparr> in
          if \<not> is_fw_version_higher E v (minimum_api_support E)
          then (Raised UnsupportedFeatureError, st1)
          else (case watch_cached_devices rs st1 of
                  (Returned, st2) \<Rightarrow> (Returned, set_connected True st2)
                | (c, st2) \<Rightarrow> (c, st2)))"

text \<open>
  \<^verbatim>\<open>close\<close> while the session loop is suspended in one of its awaits: the task is
  cancelled, its CancelledError is caught, \<^verbatim>\<open>_set_connected(False)\<close> is called.
  \<open>None\<close>: the loop has left its \<^verbatim>\<open>while\<close> already.
\<close>

definition close :: "env \<Rightarrow> bool \<Rightarrow> mode \<times> russound \<Rightarrow> (mode \<times> russound) option" where
  "close E reconnect cfg =
     (case cfg of (m, st) \<Rightarrow>
        (case step E reconnect Cancel (m, st\<lparr>connection_started := False\<rparr>) of
           None \<Rightarrow> None
         | Some (m', st') \<Rightarrow> Some (m', set_connected False st')))"

section \<open>Instances and auxiliary definitions\<close>

subsection \<open>Auxiliary notions for the cache\<close>

text \<open>A sequence of stores, each on the state the one before left (also when it raised).\<close>

fun store_all :: "env \<Rightarrow> (string \<times> string \<times> pystr) list \<Rightarrow> russound \<Rightarrow> russound" where
  "store_all E [] st = st"
| "store_all E ((d, k, v) # xs) st = store_all E xs (snd (store_cached_variable E d k v st))"

text \<open>The actions of a store: the write and the callback invocations.\<close>

fun is_cache_action :: "action \<Rightarrow> bool" where
  "is_cache_action (Stored d k v) = True"
| "is_cache_action (Called cb d k v) = True"
| "is_cache_action a = False"

subsection \<open>An instance of the parameters\<close>

text \<open>
  The examples run the model on one instance of the parameters: device identifiers
  \<^verbatim>\<open>S[n]\<close> and \<^verbatim>\<open>C[c].Z[z]\<close>, versions compared as strings, and a pattern that is
  given by its groups on the four payloads the examples use.
\<close>

fun dec_nat :: "nat \<Rightarrow> string" where
  "dec_nat n = (if n < 10 then [char_of (48 + n)] else dec_nat (n div 10) @ [char_of (48 + n mod 10)])"

declare dec_nat.simps [simp del]

definition dec_int :: "int \<Rightarrow> string" where
  "dec_int i = (if i < 0 then CHR ''-'' # dec_nat (nat (- i)) else dec_nat (nat i))"

fun str_le :: "string \<Rightarrow> string \<Rightarrow> bool" where
  "str_le [] ys = True"
| "str_le (x # xs) [] = False"
| "str_le (x # xs) (y # ys) =
     ((of_char x :: nat) < of_char y \<or> (x = y \<and> str_le xs ys))"

definition example_regex :: "string \<Rightarrow> groups option" where
  "example_regex payload =
     (if payload = ''S[1].name=\"Tuner\"'' then
        Some \<lparr>g_source = Some ''1'', g_controller = None, g_zone = None,
              g_variable = Some ''name'', g_value = Some ''Tuner'', g_value_only = None\<rparr>
      else if payload = ''C[1].Z[1].volume=\"10\"'' then
        Some \<lparr>g_source = None, g_controller = Some ''1'', g_zone = Some ''1'',
              g_variable = Some ''volume'', g_value = Some ''10'', g_value_only = None\<rparr>
      else if payload = ''VERSION=\"1.00.00\"'' then
        Some \<lparr>g_source = None, g_controller = None, g_zone = None,
              g_variable = None, g_value = None, g_value_only = Some ''1.00.00''\<rparr>
      else if payload = ''VERSION=\"1.06.00\"'' then
        Some \<lparr>g_source = None, g_controller = None, g_zone = None,
              g_variable = None, g_value = None, g_value_only = Some ''1.06.00''\<rparr>
      else None)"

definition example_env :: env where
  "example_env =
     \<lparr>response_regex = example_regex,
      source_device_str = (\<lambda>n. ''S['' @ dec_int n @ '']''),
      zone_device_str = (\<lambda>c z. ''C['' @ dec_int c @ ''].Z['' @ dec_int z @ '']''),
      is_fw_version_higher = (\<lambda>v m. case v of None \<Rightarrow> False | Some s \<Rightarrow> str_le m s),
      minimum_api_support = ''1.05.00''\<rparr>"

subsection \<open>Auxiliary notions for the session loop\<close>

text \<open>
  The writes and resolutions of a trace, in order: \<open>W f c\<close> is the write of the bytes \<open>c\<close>
  for the command of future \<open>f\<close>, \<open>R f\<close> the resolution of future \<open>f\<close>.
\<close>

datatype wr = W nat string | R nat

fun wr_of :: "action \<Rightarrow> wr list" where
  "wr_of (Written f c) = [W f c]"
| "wr_of (Resolved f outcome) = [R f]"
| "wr_of a = []"

definition wr_trace :: "action list \<Rightarrow> wr list" where
  "wr_trace tr = concat (map wr_of tr)"




text \<open>The commands \<open>P\<close> that are put from state \<open>st0\<close> on, with the futures they get.\<close>

definition new_cmds :: "russound \<Rightarrow> string list \<Rightarrow> (string \<times> nat) list" where
  "new_cmds st0 P = zip P [next_future st0 ..< next_future st0 + length P]"







fun is_conn_true :: "action \<Rightarrow> bool" where
  "is_conn_true (ConnCalled cb b) = b"
| "is_conn_true a = False"

text \<open>
  What no step of the loop does: change the watch set, set the connection state to
  Connected, or call a connection callback with \<open>True\<close>.
\<close>

definition registry_frame :: "russound \<Rightarrow> russound \<Rightarrow> bool" where
  "registry_frame st st' =
     (watched_devices st' = watched_devices st \<and> (connected st' \<longrightarrow> connected st)
      \<and> filter is_conn_true (trace st') = filter is_conn_true (trace st))"

text \<open>What a step of the loop leaves alone unless it takes or resolves a command.\<close>

definition loop_frame :: "russound \<Rightarrow> russound \<Rightarrow> bool" where
  "loop_frame st st' =
     (cmd_queue st' = cmd_queue st \<and> next_future st' = next_future st
      \<and> results st' = results st \<and> wr_trace (trace st') = wr_trace (trace st)
      \<and> registry_frame st st')"


text \<open>
  An object after \<^verbatim>\<open>connect\<close> and \<^verbatim>\<open>enumerate_controllers\<close> have run and before
  \<^verbatim>\<open>init_sources\<close> has: one controller with one zone, and no source.
\<close>

definition zone_without_source :: russound where
  "zone_without_source =
     init\<lparr>connection_started := True,
          controllers := [(1, \<lparr>controller_id = 1,
                               zones = [(1, \<lparr>zone_controller_id = 1, zone_id = 1\<rparr>)]\<rparr>)]\<rparr>"

text \<open>The calls of \<^verbatim>\<open>_set_connected(b)\<close>.\<close>

definition conn_calls :: "russound \<Rightarrow> bool \<Rightarrow> action list" where
  "conn_calls st b = map (\<lambda>cb. ConnCalled cb b) (connection_callbacks st)"

subsection \<open>Examples and outcomes for the fan-out and the parser\<close>

text \<open>
  An object with source 1, a zone that is tuned to it by default, callback 5 registered
  for the source and callback 7 for the zone.
\<close>

definition tuned_zone :: russound where
  "tuned_zone =
     init\<lparr>controllers := [(1, \<lparr>controller_id = 1,
                               zones = [(1, \<lparr>zone_controller_id = 1, zone_id = 1\<rparr>)]\<rparr>)],
          sources := [1 \<mapsto> \<lparr>source_id = 1\<rparr>],
          callbacks := [(''S[1]'', [5]), (''C[1].Z[1]'', [7])]\<rparr>"








section \<open>Properties\<close>

subsection \<open>The cache\<close>

lemma call_all_frame:
  "call_all cbs d k v st = st\<lparr>trace := trace st @ map (\<lambda>cb. Called cb d k v) cbs\<rparr>"
  by (simp add: call_all_def)

lemma fetch_current_source_trace [simp]:
  "fetch_current_source E (st\<lparr>trace := tr\<rparr>) z = fetch_current_source E st z"
  by (simp add: fetch_current_source_def current_source_def get_cached_variable_def
      retrieve_cached_variable_def split: option.splits sum.splits)

lemma callbacks_get_trace [simp]:
  "callbacks_get (st\<lparr>trace := tr\<rparr>) d = callbacks_get st d"
  by (simp add: callbacks_get_def)

lemma source_callback_frame:
  "\<exists>tr. snd (source_callback E d k v zs st) = st\<lparr>trace := trace st @ tr\<rparr>
        \<and> (\<forall>a \<in> set tr. is_cache_action a)"
proof (induction zs arbitrary: st)
  case Nil
  show ?case by (intro exI[of _ "[]"]) simp
next
  case (Cons z zs)
  show ?case
  proof (cases "fetch_current_source E st z")
    case (Inl e)
    with Inl show ?thesis by (intro exI[of _ "[]"]) simp
  next
    case (Inr src)
    let ?st1 = "if source_device_str E (source_id src) = d
             then call_all (callbacks_get st (zone_dev E z)) d k v st else st"
    obtain tr0 where tr0: "?st1 = st\<lparr>trace := trace st @ tr0\<rparr>" "\<forall>a \<in> set tr0. is_cache_action a"
    proof (cases "source_device_str E (source_id src) = d")
      case True
      then show ?thesis using that[of "map (\<lambda>cb. Called cb d k v) (callbacks_get st (zone_dev E z))"]
        by (auto simp: call_all_def)
    next
      case False
      then show ?thesis using that[of "[]"] by simp
    qed
    from Cons.IH[of ?st1] obtain tr where tr:
      "snd (source_callback E d k v zs ?st1) = ?st1\<lparr>trace := trace ?st1 @ tr\<rparr>"
      "\<forall>a \<in> set tr. is_cache_action a" by blast
    have "snd (source_callback E d k v (z # zs) st) = snd (source_callback E d k v zs ?st1)"
      using Inr by simp
    also have "\<dots> = st\<lparr>trace := trace st @ (tr0 @ tr)\<rparr>"
      using tr(1) tr0(1) by simp
    finally show ?thesis using tr0(2) tr(2) by (intro exI[of _ "tr0 @ tr"]) auto
  qed
qed

lemma store_cached_variable_frame:
  "\<exists>tr. snd (store_cached_variable E d k v st) =
          st\<lparr>dev_state := (dev_state st)(d \<mapsto> (zone_state_of st d)(py_lower k \<mapsto> v)),
             trace := trace st @ Stored d (py_lower k) v
                      # map (\<lambda>cb. Called cb d (py_lower k) v) (callbacks_get st d) @ tr\<rparr>
        \<and> (\<forall>a \<in> set tr. is_cache_action a)"
proof -
  let ?k = "py_lower k"
  let ?st1 = "st\<lparr>dev_state := (dev_state st)(d \<mapsto> (zone_state_of st d)(?k \<mapsto> v)),
                   trace := trace st @ [Stored d ?k v]\<rparr>"
  let ?st2 = "call_all (callbacks_get ?st1 d) d ?k v ?st1"
  have cg: "callbacks_get ?st1 d = callbacks_get st d" by (simp add: callbacks_get_def)
  have st2: "?st2 = st\<lparr>dev_state := (dev_state st)(d \<mapsto> (zone_state_of st d)(?k \<mapsto> v)),
             trace := trace st @ Stored d ?k v
                      # map (\<lambda>cb. Called cb d ?k v) (callbacks_get st d) @ []\<rparr>"
    unfolding cg by (simp add: call_all_def)
  show ?thesis
  proof (cases "d \<noteq> [] \<and> hd d = CHR ''S''")
    case True
    then have eq: "store_cached_variable E d k v st = source_callback E d ?k v (all_zones ?st2) ?st2"
      by (cases d) (simp_all add: store_cached_variable_def Let_def)
    from source_callback_frame[of E d ?k v "all_zones ?st2" ?st2] obtain tr where
      tr: "snd (source_callback E d ?k v (all_zones ?st2) ?st2) = ?st2\<lparr>trace := trace ?st2 @ tr\<rparr>"
      "\<forall>a \<in> set tr. is_cache_action a" by blast
    have "snd (store_cached_variable E d k v st) = ?st2\<lparr>trace := trace ?st2 @ tr\<rparr>"
      using eq tr(1) by simp
    also have "\<dots> = st\<lparr>dev_state := (dev_state st)(d \<mapsto> (zone_state_of st d)(?k \<mapsto> v)),
             trace := trace st @ Stored d ?k v
                      # map (\<lambda>cb. Called cb d ?k v) (callbacks_get st d) @ tr\<rparr>"
      unfolding cg by (simp add: call_all_def)
    finally show ?thesis using tr(2) by blast
  next
    case False
    then have "snd (store_cached_variable E d k v st) = ?st2"
      by (cases d) (auto simp add: store_cached_variable_def Let_def)
    with st2 show ?thesis by (intro exI[of _ "[]"]) simp
  qed
qed

lemma dev_state_store:
  "dev_state (snd (store_cached_variable E d k v st)) =
     (dev_state st)(d \<mapsto> (zone_state_of st d)(py_lower k \<mapsto> v))"
proof -
  from store_cached_variable_frame[of E d k v st] obtain tr where
    "snd (store_cached_variable E d k v st) =
          st\<lparr>dev_state := (dev_state st)(d \<mapsto> (zone_state_of st d)(py_lower k \<mapsto> v)),
             trace := trace st @ Stored d (py_lower k) v
                      # map (\<lambda>cb. Called cb d (py_lower k) v) (callbacks_get st d) @ tr\<rparr>" by blast
  then show ?thesis by simp
qed

lemma retrieve_after_store:
  "retrieve_cached_variable (snd (store_cached_variable E d k v st)) d' k' =
     (if d' = d \<and> py_lower k' = py_lower k then Inr v else retrieve_cached_variable st d' k')"
  by (auto simp: retrieve_cached_variable_def dev_state_store zone_state_of_def split: option.splits)

lemma retrieve_store_all_other:
  "\<forall>(d, k, v) \<in> set xs. (d, py_lower k) \<noteq> (D, py_lower K) \<Longrightarrow>
   retrieve_cached_variable (store_all E xs st) D K = retrieve_cached_variable st D K"
proof (induction xs arbitrary: st)
  case Nil
  then show ?case by simp
next
  case (Cons x xs)
  obtain d k v where x: "x = (d, k, v)" by (cases x)
  from Cons.prems have "(d, py_lower k) \<noteq> (D, py_lower K)" and
    rest: "\<forall>(d, k, v) \<in> set xs. (d, py_lower k) \<noteq> (D, py_lower K)" by (auto simp: x)
  then show ?case using Cons.IH[OF rest] by (auto simp: x retrieve_after_store)
qed

text \<open>
  C6. Cache round trip: after a store of \<open>v\<close> for device \<open>D\<close> under key \<open>K\<close>, a read of
  \<open>(D, K')\<close> returns \<open>v\<close> for every \<open>K'\<close> that is \<open>K\<close> up to case, and the cached-read
  accessor returns it too. The store changes no read of another device or of another key.
  A pair that no store of a history from the fresh object addressed reads as the uncached
  signal, and as the supplied default through the accessor. A stored empty string reads as
  the empty string, which is not the uncached signal.
\<close>

theorem cache_round_trip:
  "(py_lower K' = py_lower K \<longrightarrow>
      retrieve_cached_variable (snd (store_cached_variable E D K v st)) D K' = Inr v
      \<and> get_cached_variable (snd (store_cached_variable E D K v st)) D K' dflt = v)
   \<and> ((D', py_lower K') \<noteq> (D, py_lower K) \<longrightarrow>
      retrieve_cached_variable (snd (store_cached_variable E D K v st)) D' K'
        = retrieve_cached_variable st D' K')
   \<and> ((\<forall>(d, k, w) \<in> set xs. (d, py_lower k) \<noteq> (D, py_lower K)) \<longrightarrow>
      retrieve_cached_variable (store_all E xs init) D K = Inl UncachedVariableError
      \<and> get_cached_variable (store_all E xs init) D K dflt = dflt)
   \<and> retrieve_cached_variable (snd (store_cached_variable E D K (Some []) st)) D K = Inr (Some [])
   \<and> Inr (Some []) \<noteq> (Inl UncachedVariableError :: exn + pystr)"
proof -
  have i: "retrieve_cached_variable init D K = Inl UncachedVariableError"
    by (simp add: retrieve_cached_variable_def init_def)
  show ?thesis
    using retrieve_store_all_other[of xs D K E init] i
    by (auto simp: retrieve_after_store get_cached_variable_def)
qed

theorem cache_round_trip_witness:
  "py_lower ''NAME'' = py_lower ''Name''
   \<and> retrieve_cached_variable
        (snd (store_cached_variable example_env ''S[1]'' ''Name'' (Some ''Tuner'') init)) ''S[1]'' ''NAME''
      = Inr (Some ''Tuner'')
   \<and> (''S[2]'', py_lower ''NAME'') \<noteq> (''S[1]'', py_lower ''Name'')
   \<and> retrieve_cached_variable
        (snd (store_cached_variable example_env ''S[1]'' ''Name'' (Some ''Tuner'') init)) ''S[2]'' ''NAME''
      = Inl UncachedVariableError
   \<and> get_cached_variable (store_all example_env [(''S[2]'', ''name'', Some ''Radio'')] init)
        ''S[1]'' ''Name'' (Some ''1'') = Some ''1''"
proof -
  have a: "py_lower ''NAME'' = py_lower ''Name''"
    by code_simp
  have b: "(''S[2]'', py_lower ''NAME'') \<noteq> (''S[1]'', py_lower ''Name'')" by simp
  have c: "\<forall>(d, k, w) \<in> set [(''S[2]'', ''name'', Some ''Radio'')]. (d, py_lower k) \<noteq> (''S[1]'', py_lower ''Name'')"
    by simp
  have i: "retrieve_cached_variable init ''S[2]'' ''NAME'' = Inl UncachedVariableError"
    by (simp add: retrieve_cached_variable_def init_def)
  show ?thesis
    using cache_round_trip[of "''NAME''" "''Name''" example_env "''S[1]''" "Some ''Tuner''" init "Some ''1''"
        "''S[2]''" "[(''S[2]'', ''name'', Some ''Radio'')]"] a b c i
    by simp
qed

subsection \<open>Removing a callback\<close>

lemma remove_from_all_ok:
  "\<forall>(d, cbs) \<in> set al. cb \<in> set cbs \<Longrightarrow>
   remove_from_all cb al = (None, map (\<lambda>(d, cbs). (d, remove1 cb cbs)) al)"
  by (induction al) auto

lemma remove_from_all_fail:
  "\<forall>(d', cbs') \<in> set pre. cb \<in> set cbs' \<Longrightarrow> cb \<notin> set cbs \<Longrightarrow>
   remove_from_all cb (pre @ (d, cbs) # post) =
     (Some ValueError, map (\<lambda>(d, cbs). (d, remove1 cb cbs)) pre @ (d, cbs) # post)"
  by (induction pre) auto

lemma remove_from_all_raises:
  "(d, cbs) \<in> set al \<Longrightarrow> cb \<notin> set cbs \<Longrightarrow> fst (remove_from_all cb al) = Some ValueError"
  by (induction al) (auto split: prod.splits)

text \<open>
  C9. \<^verbatim>\<open>remove_callback(f)\<close> removes \<open>f\<close> from the list of every device that has one.
  When every list contains \<open>f\<close>, each loses its first occurrence of \<open>f\<close>. Otherwise
  ValueError is raised at the first device, in iteration order, whose list does not
  contain \<open>f\<close>: the lists before it have lost \<open>f\<close>, that list and the ones after it are
  unchanged. So the removal fails whenever some device has a list without \<open>f\<close>, as when
  \<open>f\<close> was registered for one device only and another device has callbacks too.
\<close>

theorem remove_callback_all_lists:
  "((\<forall>(d, cbs) \<in> set (callbacks st). cb \<in> set cbs) \<longrightarrow>
      remove_callback cb st =
        (None, st\<lparr>callbacks := map (\<lambda>(d, cbs). (d, remove1 cb cbs)) (callbacks st)\<rparr>))
   \<and> (callbacks st = pre @ (d, cbs) # post \<and> (\<forall>(d', cbs') \<in> set pre. cb \<in> set cbs')
        \<and> cb \<notin> set cbs \<longrightarrow>
      remove_callback cb st =
        (Some ValueError,
         st\<lparr>callbacks := map (\<lambda>(d, cbs). (d, remove1 cb cbs)) pre @ (d, cbs) # post\<rparr>))
   \<and> ((d, cbs) \<in> set (callbacks st) \<and> cb \<notin> set cbs \<longrightarrow>
      fst (remove_callback cb st) = Some ValueError)"
proof (intro conjI impI)
  assume "\<forall>(d, cbs) \<in> set (callbacks st). cb \<in> set cbs"
  then show "remove_callback cb st =
        (None, st\<lparr>callbacks := map (\<lambda>(d, cbs). (d, remove1 cb cbs)) (callbacks st)\<rparr>)"
    by (simp add: remove_callback_def remove_from_all_ok)
next
  assume "callbacks st = pre @ (d, cbs) # post \<and> (\<forall>(d', cbs') \<in> set pre. cb \<in> set cbs')
        \<and> cb \<notin> set cbs"
  then show "remove_callback cb st =
        (Some ValueError,
         st\<lparr>callbacks := map (\<lambda>(d, cbs). (d, remove1 cb cbs)) pre @ (d, cbs) # post\<rparr>)"
    by (simp add: remove_callback_def remove_from_all_fail)
next
  assume "(d, cbs) \<in> set (callbacks st) \<and> cb \<notin> set cbs"
  then have "fst (remove_from_all cb (callbacks st)) = Some ValueError"
    using remove_from_all_raises by blast
  then show "fst (remove_callback cb st) = Some ValueError"
    by (cases "remove_from_all cb (callbacks st)") (simp add: remove_callback_def)
qed

theorem remove_callback_all_lists_witness:
  "callbacks (add_callback ''C[1].Z[2]'' 8 (add_callback ''C[1].Z[1]'' 7 init))
     = [(''C[1].Z[1]'', [7]), (''C[1].Z[2]'', [8])]
   \<and> remove_callback 7 (add_callback ''C[1].Z[2]'' 8 (add_callback ''C[1].Z[1]'' 7 init))
     = (Some ValueError,
        (add_callback ''C[1].Z[2]'' 8 (add_callback ''C[1].Z[1]'' 7 init))
          \<lparr>callbacks := [(''C[1].Z[1]'', []), (''C[1].Z[2]'', [8])]\<rparr>)
   \<and> remove_callback 7 (add_callback ''C[1].Z[1]'' 7 init)
     = (None, (add_callback ''C[1].Z[1]'' 7 init)\<lparr>callbacks := [(''C[1].Z[1]'', [])]\<rparr>)"
proof -
  let ?st1 = "add_callback ''C[1].Z[1]'' 7 init"
  let ?st2 = "add_callback ''C[1].Z[2]'' 8 ?st1"
  have c1: "callbacks ?st1 = [(''C[1].Z[1]'', [7])]"
    by (simp add: add_callback_def callbacks_get_def init_def)
  have c2: "callbacks ?st2 = [(''C[1].Z[1]'', [7]), (''C[1].Z[2]'', [8])]"
    by (simp add: add_callback_def callbacks_get_def init_def)
  have h2: "callbacks ?st2 = [(''C[1].Z[1]'', [7])] @ (''C[1].Z[2]'', [8]) # []
      \<and> (\<forall>(d', cbs') \<in> set [(''C[1].Z[1]'', [7::nat])]. 7 \<in> set cbs') \<and> (7::nat) \<notin> set [8]"
    using c2 by simp
  have h1: "\<forall>(d, cbs) \<in> set (callbacks ?st1). 7 \<in> set cbs" using c1 by simp
  from remove_callback_all_lists[of ?st2 7 "[(''C[1].Z[1]'', [7])]" "''C[1].Z[2]''" "[8]" "[]"] h2
  have r2: "remove_callback 7 ?st2 =
      (Some ValueError, ?st2\<lparr>callbacks := [(''C[1].Z[1]'', []), (''C[1].Z[2]'', [8])]\<rparr>)"
    by simp
  from remove_callback_all_lists[of ?st1 7] h1 c1
  have r1: "remove_callback 7 ?st1 = (None, ?st1\<lparr>callbacks := [(''C[1].Z[1]'', [])]\<rparr>)"
    by simp
  show ?thesis using c2 r1 r2 by blast
qed

subsection \<open>What the session loop leaves alone\<close>

lemma wr_trace_append [simp]: "wr_trace (xs @ ys) = wr_trace xs @ wr_trace ys"
  by (simp add: wr_trace_def)

lemma wr_trace_cache: "\<forall>a \<in> set tr. is_cache_action a \<Longrightarrow> wr_trace tr = []"
proof (induction tr)
  case Nil
  then show ?case by (simp add: wr_trace_def)
next
  case (Cons a tr)
  then have "is_cache_action a" by simp
  then have "wr_of a = []" by (cases a) simp_all
  with Cons show ?case by (simp add: wr_trace_def)
qed

lemma conn_true_cache: "\<forall>a \<in> set tr. is_cache_action a \<Longrightarrow> filter is_conn_true tr = []"
proof (induction tr)
  case Nil
  then show ?case by simp
next
  case (Cons a tr)
  then have "is_cache_action a" by simp
  then have "\<not> is_conn_true a" by (cases a) simp_all
  with Cons show ?case by simp
qed

lemma conn_false_calls [simp]: "filter is_conn_true (map (\<lambda>cb. ConnCalled cb False) cbs) = []"
  by (induction cbs) simp_all

lemma registry_frame_refl [simp]: "registry_frame st st"
  by (simp add: registry_frame_def)

lemma registry_frame_trans:
  "registry_frame a b \<Longrightarrow> registry_frame b c \<Longrightarrow> registry_frame a c"
  by (simp add: registry_frame_def)

lemma loop_frame_refl [simp]: "loop_frame st st"
  by (simp add: loop_frame_def)

lemma loop_frame_trans: "loop_frame a b \<Longrightarrow> loop_frame b c \<Longrightarrow> loop_frame a c"
  using registry_frame_trans by (auto simp: loop_frame_def)

lemma store_group_frame:
  "\<exists>ds tr. snd (store_group E d k v st) = st\<lparr>dev_state := ds, trace := trace st @ tr\<rparr>
        \<and> (\<forall>a \<in> set tr. is_cache_action a)"
proof (cases k)
  case None
  then show ?thesis
    by (intro exI[of _ "(dev_state st)(d \<mapsto> zone_state_of st d)"] exI[of _ "[]"])
       (simp add: store_group_def)
next
  case (Some key)
  from store_cached_variable_frame[of E d key v st] obtain tr where
    tr: "snd (store_cached_variable E d key v st) =
          st\<lparr>dev_state := (dev_state st)(d \<mapsto> (zone_state_of st d)(py_lower key \<mapsto> v)),
             trace := trace st @ Stored d (py_lower key) v
                      # map (\<lambda>cb. Called cb d (py_lower key) v) (callbacks_get st d) @ tr\<rparr>"
      and c: "\<forall>a \<in> set tr. is_cache_action a" by blast
  show ?thesis
    using Some tr c
    by (intro exI[of _ "(dev_state st)(d \<mapsto> (zone_state_of st d)(py_lower key \<mapsto> v))"]
          exI[of _ "Stored d (py_lower key) v
                      # map (\<lambda>cb. Called cb d (py_lower key) v) (callbacks_get st d) @ tr"])
       (auto simp: store_group_def)
qed

lemma frame_id:
  "\<exists>ds tr. st = st\<lparr>dev_state := ds, trace := trace st @ tr\<rparr> \<and> (\<forall>a \<in> set tr. is_cache_action a)"
  by (intro exI[of _ "dev_state st"] exI[of _ "[]"]) simp

lemma store_match_frame:
  "\<exists>ds tr. snd (store_match E p st) = st\<lparr>dev_state := ds, trace := trace st @ tr\<rparr>
        \<and> (\<forall>a \<in> set tr. is_cache_action a)"
  unfolding store_match_def
  using store_group_frame frame_id
  by (auto split: sum.splits)

lemma process_response_frame:
  "\<exists>ds tr. snd (process_response E res st) = st\<lparr>dev_state := ds, trace := trace st @ tr\<rparr>
        \<and> (\<forall>a \<in> set tr. is_cache_action a)"
proof (cases res)
  case NotUtf8
  then show ?thesis using frame_id by (simp add: process_response_def)
next
  case (Utf8 t)
  show ?thesis
  proof (cases "py_strip t")
    case Nil
    then show ?thesis using Utf8 frame_id by (simp add: process_response_def)
  next
    case (Cons ty rest)
    show ?thesis
    proof (cases "ty = CHR ''E'' \<or> response_regex E (drop 1 rest) = None")
      case True
      have "snd (process_response E res st) = st"
        using True Utf8 Cons by (cases "ty = CHR ''E''") (simp_all add: process_response_def Let_def)
      then show ?thesis using frame_id[of st] by simp
    next
      case False
      then obtain p where p: "response_regex E (drop 1 rest) = Some p" and ty: "ty \<noteq> CHR ''E''"
        by auto
      have "snd (process_response E res st) = snd (store_match E p st)"
        using Utf8 Cons p ty by (simp add: process_response_def Let_def split: prod.splits option.splits)
      then show ?thesis using store_match_frame[of E p st] by simp
    qed
  qed
qed

lemma process_response_loop_frame: "loop_frame st (snd (process_response E res st))"
proof -
  from process_response_frame[of E res st] obtain ds tr where
    "snd (process_response E res st) = st\<lparr>dev_state := ds, trace := trace st @ tr\<rparr>"
    "\<forall>a \<in> set tr. is_cache_action a" by blast
  then show ?thesis
    by (simp add: loop_frame_def registry_frame_def wr_trace_cache conn_true_cache)
qed

lemma process_response_queue_future:
  "queue_future (snd (process_response E res st)) = queue_future st"
proof -
  from process_response_frame[of E res st] obtain ds tr where
    "snd (process_response E res st) = st\<lparr>dev_state := ds, trace := trace st @ tr\<rparr>" by blast
  then show ?thesis by simp
qed

lemma wr_trace_conn [simp]: "wr_trace (map (\<lambda>cb. ConnCalled cb b) cbs) = []"
  by (induction cbs) (simp_all add: wr_trace_def)

lemma exit_loop_frame:
  "exit_loop rc e i st = (m', st') \<Longrightarrow>
   m' = Exited e (rc \<and> connection_started st) i \<and> loop_frame st st'
   \<and> queue_future st' = None"
  by (cases "e = TimeoutError \<or> e = ConnectionResetError")
     (auto simp: exit_loop_def Let_def set_connected_def loop_frame_def registry_frame_def
        wr_trace_def)

lemma outer_net_frame:
  "outer_net E rc r st = (m', st') \<Longrightarrow>
   ((m' = Outer \<and> queue_future st' = queue_future st)
    \<or> ((\<exists>e a. m' = Exited e a None) \<and> queue_future st' = None))
   \<and> loop_frame st st'"
proof (cases r)
  case (RecvRaises e)
  assume "outer_net E rc r st = (m', st')"
  with RecvRaises show ?thesis using exit_loop_frame[of rc e None st m' st']
    by (simp add: outer_net_def)
next
  case (Recv response)
  assume a: "outer_net E rc r st = (m', st')"
  obtain res st1 where p: "process_response E response st = (res, st1)"
    by (cases "process_response E response st")
  have f1: "loop_frame st st1" using process_response_loop_frame[of st E response] p by simp
  have q1: "queue_future st1 = queue_future st"
    using process_response_queue_future[of E response st] p by simp
  show ?thesis
  proof (cases res)
    case (Inr tv)
    with a Recv p f1 q1 show ?thesis by (simp add: outer_net_def)
  next
    case (Inl e)
    show ?thesis
    proof (cases "\<exists>msg. e = CommandError msg")
      case True
      with a Recv p f1 q1 Inl show ?thesis by (auto simp: outer_net_def)
    next
      case False
      then have "exit_loop rc e None st1 = (m', st')"
        using a Recv p Inl by (cases e) (simp_all add: outer_net_def)
      from exit_loop_frame[OF this] f1 show ?thesis
        using loop_frame_trans by blast
    qed
  qed
qed

lemma resolve_pending:
  "results st f = None \<Longrightarrow>
   resolve f outcome st =
     (None, st\<lparr>results := (results st)(f \<mapsto> outcome), trace := trace st @ [Resolved f outcome]\<rparr>)"
  by (simp add: resolve_def)

text \<open>A round of the inner loop keeps the command in flight, leaves the loop, or resolves the future.\<close>

lemma resolve_done:
  "results st f = Some r \<Longrightarrow> resolve f outcome st = (Some InvalidStateError, st)"
  by (simp add: resolve_def)

lemma inner_net_cases:
  assumes "inner_net E rc f r st = (m', st')"
  shows "(m' = Inner f \<and> loop_frame st st' \<and> queue_future st' = queue_future st)
       \<or> ((\<exists>e a. m' = Exited e a (Some f)) \<and> loop_frame st st' \<and> queue_future st' = None)
       \<or> (m' = Outer \<and> (\<exists>st1 outcome. loop_frame st st1
             \<and> queue_future st1 = queue_future st
             \<and> st' = st1\<lparr>results := (results st1)(f \<mapsto> outcome),
                          trace := trace st1 @ [Resolved f outcome]\<rparr>))"
proof (cases r)
  case (RecvRaises e)
  with assms(1) show ?thesis using exit_loop_frame[of rc e "Some f" st m' st']
    by (simp add: inner_net_def)
next
  case (Recv response)
  obtain res st1 where p: "process_response E response st = (res, st1)"
    by (cases "process_response E response st")
  have f1: "loop_frame st st1" using process_response_loop_frame[of st E response] p by simp
  have q1: "queue_future st1 = queue_future st"
    using process_response_queue_future[of E response st] p by simp
  have settle: ?thesis
    if a: "(case resolve f outcome st1 of
              (None, st'') \<Rightarrow> (Outer, st'')
            | (Some e, st'') \<Rightarrow> exit_loop rc e (Some f) st'') = (m', st')" for outcome
  proof (cases "results st1 f")
    case None
    from a resolve_pending[OF None, of outcome]
    have "m' = Outer \<and> st' = st1\<lparr>results := (results st1)(f \<mapsto> outcome),
                          trace := trace st1 @ [Resolved f outcome]\<rparr>" by simp
    with f1 q1 show ?thesis by blast
  next
    case (Some d)
    from a resolve_done[OF Some, of outcome]
    have "exit_loop rc InvalidStateError (Some f) st1 = (m', st')" by simp
    from exit_loop_frame[OF this] f1 show ?thesis using loop_frame_trans by blast
  qed
  show ?thesis
  proof (cases res)
    case (Inr tv)
    obtain ty v where tv: "tv = (ty, v)" by (cases tv)
    show ?thesis
    proof (cases "ty = Some (CHR ''S'')")
      case True
      then show ?thesis
        using assms(1) Recv p Inr tv by (intro settle[of "Inr v"]) (simp add: inner_net_def)
    next
      case False
      then have "m' = Inner f \<and> st' = st1"
        using assms(1) Recv p Inr tv by (simp add: inner_net_def)
      with f1 q1 show ?thesis by blast
    qed
  next
    case (Inl e)
    show ?thesis
    proof (cases "\<exists>msg. e = CommandError msg")
      case True
      then obtain msg where e: "e = CommandError msg" by blast
      show ?thesis
        using assms(1) Recv p Inl e
        by (intro settle[of "Inl (CommandError msg)"]) (simp add: inner_net_def)
    next
      case False
      then have "exit_loop rc e (Some f) st1 = (m', st')"
        using assms(1) Recv p Inl by (cases e) (simp_all add: inner_net_def)
      from exit_loop_frame[OF this] f1 show ?thesis
        using loop_frame_trans by blast
    qed
  qed
qed

lemma outer_queue_cases:
  assumes "outer_queue rc w st = Some (m', st')"
  shows "\<exists>cmd f. queue_future st = Some (cmd, f)
          \<and> (m' = Inner f \<or> (\<exists>e a. m' = Exited e a (Some f)))
          \<and> queue_future st' = None
          \<and> cmd_queue st' = cmd_queue st \<and> next_future st' = next_future st
          \<and> results st' = results st
          \<and> wr_trace (trace st') = wr_trace (trace st) @ [W f (cmd @ [CHR 0x0D])]
          \<and> registry_frame st st'"
proof (cases "queue_future st")
  case None
  with assms show ?thesis by (simp add: outer_queue_def)
next
  case (Some x)
  obtain cmd f where x: "x = (cmd, f)" by (cases x)
  let ?st1 = "st\<lparr>trace := trace st @ [Written f (cmd @ [CHR 0x0D])]\<rparr>"
  show ?thesis
  proof (cases w)
    case None
    with assms Some x have "m' = Inner f \<and> st' = ?st1\<lparr>queue_future := None\<rparr>"
      by (simp add: outer_queue_def)
    with Some x show ?thesis by (simp add: wr_trace_def registry_frame_def)
  next
    case (Some e)
    with assms \<open>queue_future st = Some x\<close> x have "exit_loop rc e (Some f) ?st1 = (m', st')"
      by (simp add: outer_queue_def)
    from exit_loop_frame[OF this] \<open>queue_future st = Some x\<close> x show ?thesis
      by (auto simp: loop_frame_def wr_trace_def registry_frame_def)
  qed
qed

lemma queue_get_cases:
  assumes "queue_get st = Some st'"
  shows "\<exists>item q. queue_future st = None \<and> cmd_queue st = item # q
          \<and> st' = st\<lparr>cmd_queue := q, queue_future := Some item\<rparr>"
  using assms by (auto simp: queue_get_def split: option.splits list.splits)

subsection \<open>The invariant of the session loop\<close>


lemma new_cmds_futures: "(c, f) \<in> set (new_cmds st0 P) \<Longrightarrow> f < next_future st0 + length P"
  by (auto simp: new_cmds_def dest!: set_zip_rightD)












subsection \<open>What the invariant gives\<close>






lemma step_registry:
  assumes "step E rc t (m, st) = Some (m', st')"
  shows "registry_frame st st'"
proof (cases t)
  case (Put c)
  with assms show ?thesis by (auto simp: step_def send_cmd_def registry_frame_def)
next
  case Got
  with assms obtain st1 where "queue_get st = Some st1" "st' = st1"
    by (cases m; auto simp: step_def)
  with queue_get_cases[of st st'] show ?thesis by (auto simp: registry_frame_def)
next
  case (WakeNet r)
  show ?thesis
  proof (cases m)
    case Outer
    with assms WakeNet have "outer_net E rc r st = (m', st')"
      by (simp add: step_def split: option.splits)
    from outer_net_frame[OF this] show ?thesis by (simp add: loop_frame_def)
  next
    case (Inner f)
    with assms WakeNet have "inner_net E rc f r st = (m', st')" by (simp add: step_def)
    from inner_net_cases[OF this] show ?thesis
      by (auto simp: loop_frame_def registry_frame_def)
  next
    case (Exited e a i)
    with assms WakeNet show ?thesis by (simp add: step_def)
  qed
next
  case (WakeQueue w)
  show ?thesis
  proof (cases m)
    case Outer
    with assms WakeQueue have "outer_queue rc w st = Some (m', st')" by (simp add: step_def)
    from outer_queue_cases[OF this] show ?thesis by auto
  qed (use assms WakeQueue in \<open>simp_all add: step_def\<close>)
next
  case (WakeBoth r w)
  show ?thesis
  proof (cases m)
    case Outer
    obtain m1 st1 where o: "outer_net E rc r st = (m1, st1)" by (cases "outer_net E rc r st")
    from outer_net_frame[OF o] have fr: "registry_frame st st1"
      and m1: "m1 = Outer \<or> (\<exists>e a. m1 = Exited e a None)" by (auto simp: loop_frame_def)
    from assms WakeBoth Outer o have ne: "queue_future st \<noteq> None"
      by (auto simp: step_def split: if_splits)
    show ?thesis
    proof (cases "m1 = Outer")
      case True
      with assms WakeBoth Outer o ne have "outer_queue rc w st1 = Some (m', st')"
        by (simp add: step_def)
      from outer_queue_cases[OF this] fr show ?thesis using registry_frame_trans by blast
    next
      case False
      with m1 obtain e a where "m1 = Exited e a None" by blast
      with assms WakeBoth Outer o ne have "st' = st1" by (simp_all add: step_def)
      with fr show ?thesis by simp
    qed
  qed (use assms WakeBoth in \<open>simp_all add: step_def\<close>)
next
  case Cancel
  show ?thesis
  proof (cases m)
    case Outer
    with assms Cancel have "exit_loop rc CancelledError None st = (m', st')"
      by (simp add: step_def)
    from exit_loop_frame[OF this] show ?thesis by (simp add: loop_frame_def)
  next
    case (Inner f)
    with assms Cancel have "exit_loop rc CancelledError (Some f) st = (m', st')"
      by (simp add: step_def)
    from exit_loop_frame[OF this] show ?thesis by (simp add: loop_frame_def)
  next
    case (Exited e a i)
    with assms Cancel show ?thesis by (simp add: step_def)
  qed
qed

lemma run_registry:
  "run E rc ts (m, st) = Some (m', st') \<Longrightarrow> registry_frame st st'"
proof (induction ts arbitrary: m st)
  case Nil
  then show ?case by simp
next
  case (Cons t ts)
  from Cons.prems obtain m1 st1 where s: "step E rc t (m, st) = Some (m1, st1)"
    and r: "run E rc ts (m1, st1) = Some (m', st')"
    by (auto split: option.splits)
  from Cons.IH[OF r] step_registry[OF s] show ?case using registry_frame_trans by blast
qed

text \<open>Once the loop has left its \<^verbatim>\<open>while\<close>, only \<^verbatim>\<open>send_cmd\<close> can happen, and it resolves nothing.\<close>

lemma run_exited:
  "run E rc ts (Exited e a i, st) = Some (m', st') \<Longrightarrow>
   m' = Exited e a i \<and> results st' = results st \<and> trace st' = trace st
   \<and> connected st' = connected st \<and> queue_future st' = queue_future st"
proof (induction ts arbitrary: st)
  case Nil
  then show ?case by simp
next
  case (Cons t ts)
  from Cons.prems obtain cfg where s: "step E rc t (Exited e a i, st) = Some cfg"
    and r: "run E rc ts cfg = Some (m', st')"
    by (auto split: option.splits)
  from s obtain c where "t = Put c" and cfg: "cfg = (Exited e a i, snd (send_cmd c st))"
    by (cases t) (auto simp: step_def)
  from r Cons.IH[of "snd (send_cmd c st)"] cfg show ?case by (simp add: send_cmd_def)
qed

subsection \<open>The order of writes and resolutions\<close>




subsection \<open>What holds of the reply correlation and of read errors\<close>

lemma run_append:
  "run E rc (xs @ ys) cfg = (case run E rc xs cfg of None \<Rightarrow> None | Some c \<Rightarrow> run E rc ys c)"
  by (induction xs arbitrary: cfg) (auto split: option.splits)

lemma run_net_outer:
  "run E rc (map WakeNet rs) (Outer, st) = Some (m, st') \<Longrightarrow> m \<noteq> Inner f"
proof (induction rs arbitrary: st)
  case Nil
  then show ?case by simp
next
  case (Cons r rs)
  obtain m1 st1 where o: "outer_net E rc r st = (m1, st1)" by (cases "outer_net E rc r st")
  from Cons.prems obtain cfg where s: "step E rc (WakeNet r) (Outer, st) = Some cfg"
    and r0: "run E rc (map WakeNet rs) cfg = Some (m, st')"
    by (auto split: option.splits)
  from s o have "cfg = (m1, st1)" by (auto simp: step_def split: option.splits)
  with r0 have r1: "run E rc (map WakeNet rs) (m1, st1) = Some (m, st')" by simp
  from outer_net_frame[OF o] consider "m1 = Outer" | e a where "m1 = Exited e a None" by blast
  then show ?case
  proof cases
    case 1
    with r1 Cons.IH show ?thesis by simp
  next
    case 2
    with r1 run_exited[of E rc "map WakeNet rs" e a None st1 m st'] show ?thesis by simp
  qed
qed

lemma run_net_inner:
  "run E rc (map WakeNet rs) (Inner f, st) = Some (Inner f, st') \<Longrightarrow> loop_frame st st'"
proof (induction rs arbitrary: st)
  case Nil
  then show ?case by simp
next
  case (Cons r rs)
  obtain m1 st1 where i: "inner_net E rc f r st = (m1, st1)" by (cases "inner_net E rc f r st")
  then have s: "step E rc (WakeNet r) (Inner f, st) = Some (m1, st1)" by (simp add: step_def)
  with Cons.prems have r1: "run E rc (map WakeNet rs) (m1, st1) = Some (Inner f, st')" by simp
  from inner_net_cases[OF i] consider "m1 = Inner f" "loop_frame st st1"
    | e a where "m1 = Exited e a (Some f)" | "m1 = Outer" by blast
  then show ?case
  proof cases
    case 1
    with r1 Cons.IH[of st1] show ?thesis using loop_frame_trans by blast
  next
    case 2
    with r1 run_exited[of E rc "map WakeNet rs" e a "Some f" st1 "Inner f" st'] show ?thesis by simp
  next
    case 3
    with r1 run_net_outer[of E rc rs st1 "Inner f" st' f] show ?thesis by simp
  qed
qed

text \<open>
  The correlation of a reply where no line is fatal. A command with pending future \<open>f\<close> is in
  flight and the lines \<open>bs\<close> are read without ending the round (none has tag \<^verbatim>\<open>S\<close> or
  \<^verbatim>\<open>E\<close>, none raises). If the next line comes back from \<^verbatim>\<open>_process_response\<close> with tag
  \<^verbatim>\<open>S\<close> and value \<open>v\<close>, the future is resolved with \<open>v\<close>; if it raises
  CommandError, the future is resolved with that error. The resolution is the last action,
  after the stores and callbacks of all the lines, and the loop is back in its outer wait.
\<close>

lemma terminal_line_resolves:
  assumes "results st f = None"
    and "run E rc (map (\<lambda>b. WakeNet (Recv b)) bs) (Inner f, st) = Some (Inner f, st1)"
    and "process_response E b st1 = (r, st2)"
    and "(r = Inr (Some (CHR ''S''), v) \<and> outcome = Inr v)
       \<or> (r = Inl (CommandError msg) \<and> outcome = Inl (CommandError msg))"
  shows "run E rc (map (\<lambda>b. WakeNet (Recv b)) (bs @ [b])) (Inner f, st)
         = Some (Outer, st2\<lparr>results := (results st2)(f \<mapsto> outcome),
                             trace := trace st2 @ [Resolved f outcome]\<rparr>)"
proof -
  have m: "map (\<lambda>b. WakeNet (Recv b)) bs = map WakeNet (map Recv bs)" by simp
  from run_net_inner[of E rc "map Recv bs" f st st1] assms(2) have "loop_frame st st1"
    unfolding m by simp
  with assms(1) have "results st1 f = None" by (simp add: loop_frame_def)
  moreover have "loop_frame st1 st2"
    using process_response_loop_frame[of st1 E b] assms(3) by simp
  ultimately have p: "results st2 f = None" by (simp add: loop_frame_def)
  have "inner_net E rc f (Recv b) st1
        = (Outer, st2\<lparr>results := (results st2)(f \<mapsto> outcome),
                       trace := trace st2 @ [Resolved f outcome]\<rparr>)"
    using assms(3,4) resolve_pending[OF p, of outcome] by (auto simp: inner_net_def)
  then show ?thesis using assms(2) by (simp add: run_append step_def)
qed

text \<open>
  The paths beside end of stream: a read that raises leaves the loop, the connection state
  is Disconnected, and \<^verbatim>\<open>connect\<close> is called again when reconnecting was asked for and
  \<^verbatim>\<open>close\<close> has not been called. The same holds in the inner loop.
\<close>

lemma read_error_ends_loop:
  "step E rc (WakeNet (RecvRaises e)) (Outer, st) = Some (Exited e (rc \<and> connection_started st) None, st')
   \<Longrightarrow> \<not> connected st' \<and> connection_callbacks st' = connection_callbacks st
       \<and> (\<exists>tr. trace st' = trace st @ tr @ [WriterClosed] @ conn_calls st False)"
  by (cases "e = TimeoutError \<or> e = ConnectionResetError")
     (auto simp: step_def outer_net_def exit_loop_def Let_def set_connected_def conn_calls_def
        split: option.splits)

lemma read_error_step:
  "\<exists>st'. step E rc (WakeNet (RecvRaises e)) (Outer, st)
          = Some (Exited e (rc \<and> connection_started st) None, st')"
  by (cases "e = TimeoutError \<or> e = ConnectionResetError")
     (auto simp: step_def outer_net_def exit_loop_def Let_def set_connected_def)

lemma read_error_step_inner:
  "\<exists>st'. step E rc (WakeNet (RecvRaises e)) (Inner f, st)
          = Some (Exited e (rc \<and> connection_started st) (Some f), st') \<and> \<not> connected st'"
  by (cases "e = TimeoutError \<or> e = ConnectionResetError")
     (auto simp: step_def inner_net_def exit_loop_def Let_def set_connected_def)

subsection \<open>Cancellation\<close>





subsection \<open>End of stream\<close>

text \<open>
  C4, at the input on which the code departs from it. At end of stream
  \<^verbatim>\<open>readline\<close> returns the empty \<^verbatim>\<open>bytes\<close>. \<^verbatim>\<open>_process_response\<close> returns
  \<^verbatim>\<open>(None, None)\<close> for it, and the loop goes on to the next read, in the outer loop
  and in the inner one, however often the read is repeated: the loop is not left, the
  connection state is not touched and no reconnect is started.
\<close>

theorem end_of_stream_is_read_again:
  "run E rc (replicate n (WakeNet (Recv (Utf8 [])))) (Outer, st) = Some (Outer, st)
   \<and> run E rc (replicate n (WakeNet (Recv (Utf8 [])))) (Inner f, st) = Some (Inner f, st)"
proof -
  have p: "process_response E (Utf8 []) st = (Inr (None, None), st)"
    by (simp add: process_response_def py_strip_def)
  have o: "step E rc (WakeNet (Recv (Utf8 []))) (Outer, st) = Some (Outer, st)"
    by (simp add: step_def outer_net_def p)
  have i: "step E rc (WakeNet (Recv (Utf8 []))) (Inner f, st) = Some (Inner f, st)"
    by (simp add: step_def inner_net_def p)
  show ?thesis using o i by (induction n) simp_all
qed

subsection \<open>A push line that ends the loop\<close>

text \<open>
  C1, at an input on which the code departs from it. A controller with one zone is
  known and no source is. The command \<^verbatim>\<open>GET C[1].Z[1].name\<close> is written, and the
  device pushes a variable of source 1 before it replies. The store is made; then the zone
  loop of \<^verbatim>\<open>_store_cached_variable\<close> asks for the zone's current source, source 1 by
  default, and \<^verbatim>\<open>self.instance.sources[1]\<close> raises KeyError. The loop is left through
  \<^verbatim>\<open>except Exception\<close>; the future of the command is pending and no later line is read.
\<close>

theorem source_push_ends_loop:
  "(case run example_env True
           [Put ''GET C[1].Z[1].name'', Got, WakeQueue None,
            WakeNet (Recv (Utf8 ''N S[1].name=\"Tuner\"''))] (Outer, zone_without_source) of
      None \<Rightarrow> False
    | Some (m, st) \<Rightarrow>
        m = Exited KeyError True (Some 0) \<and> results st 0 = None
        \<and> retrieve_cached_variable st ''S[1]'' ''name'' = Inr (Some ''Tuner'')
        \<and> step example_env True (WakeNet (Recv (Utf8 ''S \"Kitchen\"''))) (m, st) = None)"
  by code_simp

subsection \<open>The watch registry\<close>

lemma dict_set_keys: "fst ` set (dict_set k v al) = insert k (fst ` set al)"
proof (induction al)
  case Nil
  then show ?case by simp
next
  case (Cons p al)
  obtain a b where p: "p = (a, b)" by (cases p)
  show ?case
  proof (cases "a = k")
    case True
    with p show ?thesis by simp
  next
    case False
    with p Cons show ?thesis by (simp add: insert_commute)
  qed
qed

lemma dict_set_order: "k \<in> fst ` set al \<Longrightarrow> map fst (dict_set k v al) = map fst al"
proof (induction al)
  case Nil
  then show ?case by simp
next
  case (Cons p al)
  obtain a b where p: "p = (a, b)" by (cases p)
  show ?case
  proof (cases "a = k")
    case True
    with p show ?thesis by simp
  next
    case False
    with p Cons.prems have "k \<in> fst ` set al" by auto
    with Cons.IH p False show ?thesis by simp
  qed
qed

lemma watch_eq:
  "watch d st =
     (next_future st,
      st\<lparr>watched_devices := dict_set d True (watched_devices st),
         cmd_queue := cmd_queue st @ [(watch_cmd d, next_future st)],
         next_future := Suc (next_future st)\<rparr>)"
  by (simp add: watch_def send_cmd_def)

lemma watch_devices_queue_mono:
  "set (cmd_queue st) \<subseteq> set (cmd_queue (snd (watch_devices ds rs st)))"
proof (induction ds arbitrary: rs st)
  case Nil
  then show ?case by simp
next
  case (Cons d ds)
  let ?st1 = "snd (watch d st)"
  have q: "set (cmd_queue st) \<subseteq> set (cmd_queue ?st1)" by (auto simp: watch_eq)
  show ?case
  proof (cases rs)
    case Nil
    with q show ?thesis by (simp add: watch_eq)
  next
    case (Cons r rs')
    show ?thesis
    proof (cases r)
      case (Inl e)
      with q Cons show ?thesis by (simp add: watch_eq)
    next
      case (Inr v)
      with Cons have "watch_devices (d # ds) rs st = watch_devices ds rs' ?st1"
        by (simp add: watch_eq)
      with q Cons.IH[of ?st1 rs'] show ?thesis by auto
    qed
  qed
qed

text \<open>
  The replay comes to an identifier once the replays of those before it have succeeded, and
  queues its command with the next new future.
\<close>

lemma watch_devices_reaches:
  "length pre \<le> length rs \<Longrightarrow> \<forall>r \<in> set (take (length pre) rs). \<not> isl r \<Longrightarrow>
   (watch_cmd d, next_future st + length pre)
     \<in> set (cmd_queue (snd (watch_devices (pre @ d # post) rs st)))"
proof (induction pre arbitrary: rs st)
  case Nil
  let ?st1 = "snd (watch d st)"
  have q: "(watch_cmd d, next_future st) \<in> set (cmd_queue ?st1)" by (simp add: watch_eq)
  have "set (cmd_queue ?st1) \<subseteq> set (cmd_queue (snd (watch_devices (d # post) rs st)))"
  proof (cases rs)
    case Nil
    then show ?thesis by (simp add: watch_eq)
  next
    case (Cons r rs')
    show ?thesis
    proof (cases r)
      case (Inl e)
      with Cons show ?thesis by (simp add: watch_eq)
    next
      case (Inr v)
      with Cons show ?thesis using watch_devices_queue_mono[of ?st1 post rs']
        by (simp add: watch_eq)
    qed
  qed
  with q show ?case by auto
next
  case (Cons p pre)
  from Cons.prems(1) obtain r rs' where rs: "rs = r # rs'" by (cases rs) auto
  with Cons.prems(2) obtain v where r: "r = Inr v" by (cases r) auto
  let ?st1 = "snd (watch p st)"
  have "watch_devices ((p # pre) @ d # post) rs st = watch_devices (pre @ d # post) rs' ?st1"
    using rs r by (simp add: watch_eq)
  moreover have "length pre \<le> length rs'" "\<forall>r \<in> set (take (length pre) rs'). \<not> isl r"
    using Cons.prems rs by auto
  moreover have "next_future ?st1 = Suc (next_future st)" by (simp add: watch_eq)
  ultimately show ?case using Cons.IH[of rs' ?st1] by simp
qed

text \<open>
  When every replay succeeds, one command is queued for each identifier, in the order of the
  watch set, and nothing else changes.
\<close>

lemma watch_devices_all:
  "length ds \<le> length rs \<Longrightarrow> \<forall>r \<in> set (take (length ds) rs). \<not> isl r \<Longrightarrow>
   set ds \<subseteq> fst ` set (watched_devices st) \<Longrightarrow>
   \<exists>st'. watch_devices ds rs st = (Returned, st')
     \<and> cmd_queue st' = cmd_queue st
          @ zip (map watch_cmd ds) [next_future st ..< next_future st + length ds]
     \<and> next_future st' = next_future st + length ds
     \<and> map fst (watched_devices st') = map fst (watched_devices st)
     \<and> trace st' = trace st \<and> connected st' = connected st
     \<and> connection_callbacks st' = connection_callbacks st \<and> results st' = results st"
proof (induction ds arbitrary: rs st)
  case Nil
  then show ?case by simp
next
  case (Cons d ds)
  from Cons.prems(1) obtain r rs' where rs: "rs = r # rs'" by (cases rs) auto
  with Cons.prems(2) obtain v where r: "r = Inr v" by (cases r) auto
  let ?st1 = "snd (watch d st)"
  have w: "watch_devices (d # ds) rs st = watch_devices ds rs' ?st1"
    using rs r by (simp add: watch_eq)
  have din: "d \<in> fst ` set (watched_devices st)" using Cons.prems(3) by simp
  have k1: "map fst (watched_devices ?st1) = map fst (watched_devices st)"
    using dict_set_order[OF din] by (simp add: watch_eq)
  then have "set (map fst (watched_devices ?st1)) = set (map fst (watched_devices st))" by simp
  then have sub: "set ds \<subseteq> fst ` set (watched_devices ?st1)" using Cons.prems(3) by auto
  have l: "length ds \<le> length rs'" "\<forall>r \<in> set (take (length ds) rs'). \<not> isl r"
    using Cons.prems rs by auto
  from Cons.IH[OF l sub] obtain st' where
    st': "watch_devices ds rs' ?st1 = (Returned, st')"
    "cmd_queue st' = cmd_queue ?st1
          @ zip (map watch_cmd ds) [next_future ?st1 ..< next_future ?st1 + length ds]"
    "next_future st' = next_future ?st1 + length ds"
    "map fst (watched_devices st') = map fst (watched_devices ?st1)"
    "trace st' = trace ?st1" "connected st' = connected ?st1"
    "connection_callbacks st' = connection_callbacks ?st1" "results st' = results ?st1"
    by blast
  have u: "[next_future st ..< next_future st + length (d # ds)]
         = next_future st # [Suc (next_future st) ..< Suc (next_future st) + length ds]"
    by (subst upt_rec) simp
  show ?case
    using w st' k1 unfolding u by (intro exI[of _ st']) (simp add: watch_eq)
qed

lemma connect_resume_ok:
  "is_fw_version_higher E v (minimum_api_support E) \<Longrightarrow>
   connect_resume E (Inr v) rs st =
     (case watch_cached_devices rs (st\<lparr>rio_version := v\<rparr>) of
        (Returned, st2) \<Rightarrow> (Returned, set_connected True st2)
      | (c, st2) \<Rightarrow> (c, st2))"
  by (simp add: connect_resume_def)

lemma connect_resume_queue:
  assumes "is_fw_version_higher E v (minimum_api_support E)"
  shows "cmd_queue (snd (connect_resume E (Inr v) rs st))
       = cmd_queue (snd (watch_cached_devices rs (st\<lparr>rio_version := v\<rparr>)))"
proof -
  obtain c st2 where w: "watch_cached_devices rs (st\<lparr>rio_version := v\<rparr>) = (c, st2)"
    by (cases "watch_cached_devices rs (st\<lparr>rio_version := v\<rparr>)")
  show ?thesis unfolding connect_resume_ok[OF assms] w
    by (cases c) (simp_all add: set_connected_def)
qed

lemma connect_begin_registry: "registry_frame st (snd (snd (connect_begin st)))"
  by (simp add: connect_begin_def send_cmd_def registry_frame_def)

text \<open>
  C10. \<^verbatim>\<open>unwatch\<close> of an identifier that is not in the watch set raises KeyError and
  leaves the object as it is: no command is queued. \<^verbatim>\<open>watch\<close> has put the identifier
  into the watch set when it queues the WATCH ON command, and nothing is written yet. The
  session loop never changes the watch set, whatever the reply to the command is, and
  neither does the start of a reconnect. So when the loop has ended and reconnects, and
  the new loop has run until the VERSION reply is in, \<^verbatim>\<open>connect\<close> goes on to the replay:
  it queues the WATCH ON command for the identifier, with a new future, once the replays of
  the identifiers before it have succeeded. And when all replays of a \<^verbatim>\<open>connect\<close>
  succeed, it has queued exactly one WATCH ON command for each identifier of the watch
  set, in order, before it sets the connection state to Connected and calls the
  connection callbacks with \<open>True\<close>.
\<close>

theorem watch_set_before_command:
  "(d \<notin> fst ` set (watched_devices st) \<longrightarrow> unwatch d st = (Inl KeyError, st))
   \<and> d \<in> fst ` set (watched_devices (snd (watch d st)))
   \<and> cmd_queue (snd (watch d st)) = cmd_queue st @ [(watch_cmd d, fst (watch d st))]
   \<and> trace (snd (watch d st)) = trace st
   \<and> (run E rc sched (m, snd (watch d st)) = Some (m', st') \<longrightarrow>
        watched_devices st' = watched_devices (snd (watch d st)))
   \<and> (run E rc sched (m, snd (watch d st)) = Some (m', st')
        \<and> reconnect_begin (m', st') = Some (fv, cfg)
        \<and> run E rc sched2 cfg = Some (m2, st2)
        \<and> is_fw_version_higher E v (minimum_api_support E)
        \<and> map fst (watched_devices (snd (watch d st))) = pre @ d # post
        \<and> length pre \<le> length rs \<and> (\<forall>r \<in> set (take (length pre) rs). \<not> isl r) \<longrightarrow>
        (watch_cmd d, next_future st2 + length pre)
          \<in> set (cmd_queue (snd (connect_resume E (Inr v) rs st2))))
   \<and> (is_fw_version_higher E v (minimum_api_support E)
        \<and> length (watched_devices s) \<le> length rs
        \<and> (\<forall>r \<in> set (take (length (watched_devices s)) rs). \<not> isl r) \<longrightarrow>
        fst (connect_resume E (Inr v) rs s) = Returned
        \<and> cmd_queue (snd (connect_resume E (Inr v) rs s))
            = cmd_queue s @ zip (map watch_cmd (map fst (watched_devices s)))
                              [next_future s ..< next_future s + length (watched_devices s)]
        \<and> connected (snd (connect_resume E (Inr v) rs s))
        \<and> trace (snd (connect_resume E (Inr v) rs s)) = trace s @ conn_calls s True)"
proof (intro conjI impI)
  assume "d \<notin> fst ` set (watched_devices st)"
  then show "unwatch d st = (Inl KeyError, st)" by (simp add: unwatch_def)
next
  show "d \<in> fst ` set (watched_devices (snd (watch d st)))"
    by (simp add: watch_eq dict_set_keys)
  show "cmd_queue (snd (watch d st)) = cmd_queue st @ [(watch_cmd d, fst (watch d st))]"
    by (simp add: watch_eq)
  show "trace (snd (watch d st)) = trace st" by (simp add: watch_eq)
next
  assume r: "run E rc sched (m, snd (watch d st)) = Some (m', st')"
  from run_registry[OF r] show "watched_devices st' = watched_devices (snd (watch d st))"
    by (simp add: registry_frame_def)
next
  assume a: "run E rc sched (m, snd (watch d st)) = Some (m', st')
        \<and> reconnect_begin (m', st') = Some (fv, cfg)
        \<and> run E rc sched2 cfg = Some (m2, st2)
        \<and> is_fw_version_higher E v (minimum_api_support E)
        \<and> map fst (watched_devices (snd (watch d st))) = pre @ d # post
        \<and> length pre \<le> length rs \<and> (\<forall>r \<in> set (take (length pre) rs). \<not> isl r)"
  then have w1: "watched_devices st' = watched_devices (snd (watch d st))"
    using run_registry[of E rc sched m "snd (watch d st)" m' st']
    by (simp add: registry_frame_def)
  from a have cb: "cfg = snd (connect_begin st')"
    by (cases m') (auto simp: reconnect_begin_def split: if_splits bool.splits)
  obtain mc sc where cfg: "cfg = (mc, sc)" by (cases cfg)
  then have "sc = snd cfg" by simp
  then have "sc = snd (snd (connect_begin st'))" unfolding cb .
  then have w2: "watched_devices sc = watched_devices st'"
    using connect_begin_registry[of st'] by (simp add: registry_frame_def)
  from a cfg have "run E rc sched2 (mc, sc) = Some (m2, st2)" by simp
  from run_registry[OF this] have w3: "watched_devices st2 = watched_devices sc"
    by (simp add: registry_frame_def)
  from a w1 w2 w3 have keys: "map fst (watched_devices st2) = pre @ d # post" by simp
  from a have ok: "is_fw_version_higher E v (minimum_api_support E)" by blast
  have "(watch_cmd d, next_future (st2\<lparr>rio_version := v\<rparr>) + length pre)
          \<in> set (cmd_queue (snd (watch_devices (pre @ d # post) rs (st2\<lparr>rio_version := v\<rparr>))))"
    using a by (intro watch_devices_reaches) auto
  then show "(watch_cmd d, next_future st2 + length pre)
          \<in> set (cmd_queue (snd (connect_resume E (Inr v) rs st2)))"
    unfolding connect_resume_queue[OF ok] watch_cached_devices_def using keys by simp
next
  assume a: "is_fw_version_higher E v (minimum_api_support E)
        \<and> length (watched_devices s) \<le> length rs
        \<and> (\<forall>r \<in> set (take (length (watched_devices s)) rs). \<not> isl r)"
  let ?s1 = "s\<lparr>rio_version := v\<rparr>"
  let ?ks = "map fst (watched_devices s)"
  from a have ok: "is_fw_version_higher E v (minimum_api_support E)" by blast
  have "\<exists>st'. watch_devices ?ks rs ?s1 = (Returned, st')
     \<and> cmd_queue st' = cmd_queue ?s1
          @ zip (map watch_cmd ?ks) [next_future ?s1 ..< next_future ?s1 + length ?ks]
     \<and> next_future st' = next_future ?s1 + length ?ks
     \<and> map fst (watched_devices st') = map fst (watched_devices ?s1)
     \<and> trace st' = trace ?s1 \<and> connected st' = connected ?s1
     \<and> connection_callbacks st' = connection_callbacks ?s1 \<and> results st' = results ?s1"
    using a by (intro watch_devices_all) auto
  then obtain st' where st': "watch_cached_devices rs ?s1 = (Returned, st')"
    "cmd_queue st' = cmd_queue s
          @ zip (map watch_cmd ?ks) [next_future s ..< next_future s + length ?ks]"
    "trace st' = trace s" "connection_callbacks st' = connection_callbacks s"
    by (auto simp: watch_cached_devices_def)
  have cr: "connect_resume E (Inr v) rs s = (Returned, set_connected True st')"
    unfolding connect_resume_ok[OF ok] st'(1) by simp
  show "fst (connect_resume E (Inr v) rs s) = Returned" unfolding cr by simp
  show "cmd_queue (snd (connect_resume E (Inr v) rs s))
            = cmd_queue s @ zip (map watch_cmd (map fst (watched_devices s)))
                              [next_future s ..< next_future s + length (watched_devices s)]"
    unfolding cr using st' by (simp add: set_connected_def)
  show "connected (snd (connect_resume E (Inr v) rs s))"
    unfolding cr by (simp add: set_connected_def)
  show "trace (snd (connect_resume E (Inr v) rs s)) = trace s @ conn_calls s True"
    unfolding cr using st' by (simp add: set_connected_def conn_calls_def)
qed

theorem watch_set_before_command_witness:
  "''C[1].Z[2]'' \<notin> fst ` set (watched_devices (snd (watch ''C[1].Z[1]'' (snd (snd (connect_begin init))))))
   \<and> unwatch ''C[1].Z[2]'' (snd (watch ''C[1].Z[1]'' (snd (snd (connect_begin init)))))
       = (Inl KeyError, snd (watch ''C[1].Z[1]'' (snd (snd (connect_begin init)))))
   \<and> is_fw_version_higher example_env (Some ''1.06.00'') (minimum_api_support example_env)
   \<and> (\<exists>st' cfg st2.
         run example_env True
           [Got, WakeQueue None, WakeNet (Recv (Utf8 ''S VERSION=\"1.00.00\"'')),
            Got, WakeQueue None, WakeNet (Recv (Utf8 ''S'')),
            Got, WakeQueue None, WakeNet (Recv (Utf8 ''E Invalid zone'')),
            WakeNet (RecvRaises ConnectionResetError)]
           (Outer, snd (watch ''C[1].Z[2]'' (snd (watch ''C[1].Z[1]'' (snd (snd (connect_begin init)))))))
           = Some (Exited ConnectionResetError True None, st')
       \<and> results st' 2 = Some (Inl (CommandError ''Invalid zone''))
       \<and> map fst (watched_devices st') = [''C[1].Z[1]'', ''C[1].Z[2]'']
       \<and> cmd_queue st' = []
       \<and> reconnect_begin (Exited ConnectionResetError True None, st') = Some (3, cfg)
       \<and> run example_env True
           [Got, WakeQueue None, WakeNet (Recv (Utf8 ''S VERSION=\"1.06.00\"''))] cfg
           = Some (Outer, st2)
       \<and> results st2 3 = Some (Inr (Some ''1.06.00''))
       \<and> cmd_queue st2 = [] \<and> next_future st2 = 4
       \<and> (''WATCH C[1].Z[2] ON'', 5)
            \<in> set (cmd_queue (snd (connect_resume example_env (Inr (Some ''1.06.00'')) [Inr None] st2)))
       \<and> fst (connect_resume example_env (Inr (Some ''1.06.00'')) [Inr None, Inr None] st2) = Returned
       \<and> cmd_queue (snd (connect_resume example_env (Inr (Some ''1.06.00'')) [Inr None, Inr None] st2))
           = [(''WATCH C[1].Z[1] ON'', 4), (''WATCH C[1].Z[2] ON'', 5)]
       \<and> connected (snd (connect_resume example_env (Inr (Some ''1.06.00'')) [Inr None, Inr None] st2)))"
proof -
  let ?z1 = "''C[1].Z[1]''"
  let ?d = "''C[1].Z[2]''"
  let ?st = "snd (watch ?z1 (snd (snd (connect_begin init))))"
  let ?v = "Some ''1.06.00''"
  let ?sched = "[Got, WakeQueue None, WakeNet (Recv (Utf8 ''S VERSION=\"1.00.00\"'')),
            Got, WakeQueue None, WakeNet (Recv (Utf8 ''S'')),
            Got, WakeQueue None, WakeNet (Recv (Utf8 ''E Invalid zone'')),
            WakeNet (RecvRaises ConnectionResetError)]"
  let ?again = "[Got, WakeQueue None, WakeNet (Recv (Utf8 ''S VERSION=\"1.06.00\"''))]"
  let ?m' = "Exited ConnectionResetError True None"
  have n: "?d \<notin> fst ` set (watched_devices ?st)"
    by (simp add: watch_eq connect_begin_def send_cmd_def init_def)
  have hi: "is_fw_version_higher example_env ?v (minimum_api_support example_env)"
    by code_simp
  have c: "watch_cmd ?d = ''WATCH C[1].Z[2] ON''" "watch_cmd ?z1 = ''WATCH C[1].Z[1] ON''"
    by code_simp+
  have "map_option (\<lambda>c1. (fst c1, results (snd c1) 2, map fst (watched_devices (snd c1)),
                           cmd_queue (snd c1), next_future (snd c1)))
          (run example_env True ?sched (Outer, snd (watch ?d ?st)))
        = Some (?m', Some (Inl (CommandError ''Invalid zone'')), [?z1, ?d], [], 3)"
    by code_simp
  then obtain st' where r1: "run example_env True ?sched (Outer, snd (watch ?d ?st)) = Some (?m', st')"
    and e: "results st' 2 = Some (Inl (CommandError ''Invalid zone''))"
    and k: "map fst (watched_devices st') = [?z1, ?d]"
    and q1: "cmd_queue st' = []" and n1: "next_future st' = 3"
    by auto
  have "(case run example_env True ?sched (Outer, snd (watch ?d ?st)) of
           None \<Rightarrow> None
         | Some c1 \<Rightarrow>
             (case reconnect_begin c1 of
                None \<Rightarrow> None
              | Some (fv, cfg) \<Rightarrow>
                  map_option (\<lambda>c2. (fv, fst c2, results (snd c2) 3, cmd_queue (snd c2),
                                     next_future (snd c2), map fst (watched_devices (snd c2))))
                    (run example_env True ?again cfg)))
        = Some (3, Outer, Some (Inr ?v), [], 4, [?z1, ?d])"
    by code_simp
  then obtain cfg st2 where rb: "reconnect_begin (?m', st') = Some (3, cfg)"
    and r2: "run example_env True ?again cfg = Some (Outer, st2)"
    and v: "results st2 3 = Some (Inr ?v)" and q2: "cmd_queue st2 = []"
    and n2: "next_future st2 = 4" and k2: "map fst (watched_devices st2) = [?z1, ?d]"
    unfolding r1 option.case by (auto split: option.splits prod.splits)
  have kw: "map fst (watched_devices (snd (watch ?d ?st))) = [?z1] @ ?d # []"
    by (simp add: watch_eq connect_begin_def send_cmd_def init_def)
  have h1: "length [?z1] \<le> length [Inr None :: exn + pystr]
          \<and> (\<forall>r \<in> set (take (length [?z1]) [Inr None :: exn + pystr]). \<not> isl r)"
    by simp
  have h2: "length (watched_devices st2) \<le> length [Inr None :: exn + pystr, Inr None]
          \<and> (\<forall>r \<in> set (take (length (watched_devices st2)) [Inr None :: exn + pystr, Inr None]). \<not> isl r)"
    using arg_cong[OF k2, of length] by simp
  have l2: "length (watched_devices st2) = 2" using arg_cong[OF k2, of length] by simp
  note t1 = watch_set_before_command[where d = ?d and st = ?st and E = example_env and rc = True
      and sched = ?sched and m = Outer and m' = ?m' and st' = st' and fv = 3 and cfg = cfg
      and ?sched2.0 = ?again and ?m2.0 = Outer and ?st2.0 = st2 and v = ?v and pre = "[?z1]"
      and post = "[]" and rs = "[Inr None]" and s = st2]
  note t2 = watch_set_before_command[where d = ?d and st = ?st and E = example_env and rc = True
      and sched = ?sched and m = Outer and m' = ?m' and st' = st' and fv = 3 and cfg = cfg
      and ?sched2.0 = ?again and ?m2.0 = Outer and ?st2.0 = st2 and v = ?v and pre = "[?z1]"
      and post = "[]" and rs = "[Inr None, Inr None]" and s = st2]
  from t1 n have u: "unwatch ?d ?st = (Inl KeyError, ?st)" by blast
  from t1 r1 rb r2 hi kw h1
  have "(watch_cmd ?d, next_future st2 + length [?z1])
          \<in> set (cmd_queue (snd (connect_resume example_env (Inr ?v) [Inr None] st2)))"
    by blast
  then have a: "(''WATCH C[1].Z[2] ON'', 5)
          \<in> set (cmd_queue (snd (connect_resume example_env (Inr ?v) [Inr None] st2)))"
    unfolding c n2 by simp
  from t2 hi h2
  have "fst (connect_resume example_env (Inr ?v) [Inr None, Inr None] st2) = Returned
        \<and> cmd_queue (snd (connect_resume example_env (Inr ?v) [Inr None, Inr None] st2))
            = cmd_queue st2 @ zip (map watch_cmd (map fst (watched_devices st2)))
                              [next_future st2 ..< next_future st2 + length (watched_devices st2)]
        \<and> connected (snd (connect_resume example_env (Inr ?v) [Inr None, Inr None] st2))"
    by blast
  moreover have "[4 ..< 4 + 2] = [4::nat, 5]" by (simp add: upt_rec)
  ultimately have b: "fst (connect_resume example_env (Inr ?v) [Inr None, Inr None] st2) = Returned
        \<and> cmd_queue (snd (connect_resume example_env (Inr ?v) [Inr None, Inr None] st2))
            = [(''WATCH C[1].Z[1] ON'', 4), (''WATCH C[1].Z[2] ON'', 5)]
        \<and> connected (snd (connect_resume example_env (Inr ?v) [Inr None, Inr None] st2))"
    unfolding k2 q2 n2 l2 using c by simp
  from b have b1: "fst (connect_resume example_env (Inr ?v) [Inr None, Inr None] st2) = Returned"
    and b2: "cmd_queue (snd (connect_resume example_env (Inr ?v) [Inr None, Inr None] st2))
            = [(''WATCH C[1].Z[1] ON'', 4), (''WATCH C[1].Z[2] ON'', 5)]"
    and b3: "connected (snd (connect_resume example_env (Inr ?v) [Inr None, Inr None] st2))"
    by blast+
  show ?thesis
    apply (intro conjI)
       apply (rule n)
      apply (rule u)
     apply (rule hi)
    apply (rule exI[of _ st'])
    apply (rule exI[of _ cfg])
    apply (rule exI[of _ st2])
    apply (intro conjI)
               apply (rule r1 e k q1 rb r2 v q2 n2 a b1 b2 b3)+
    done
qed

subsection \<open>The version gate\<close>

text \<open>
  C5. \<^verbatim>\<open>connect\<close> sets neither the connection state nor a callback before it waits for
  the reply to VERSION, and no step of the session loop sets the state to Connected or
  calls a connection callback with \<open>True\<close>. When the VERSION future is resolved with a
  version that is not at least the minimum, \<^verbatim>\<open>connect\<close> raises UnsupportedFeatureError
  having changed nothing but \<^verbatim>\<open>rio_version\<close>: no WATCH command is queued, the connection
  state is as it was, so Disconnected if it was before \<^verbatim>\<open>connect\<close>, and no callback is
  called.
\<close>

theorem version_gate:
  assumes "\<not> is_fw_version_higher E v (minimum_api_support E)"
    and "run E rc sched (snd (connect_begin st0)) = Some (m, st)"
  shows "connect_resume E (Inr v) rs st = (Raised UnsupportedFeatureError, st\<lparr>rio_version := v\<rparr>)
       \<and> (connected st \<longrightarrow> connected st0)
       \<and> filter is_conn_true (trace st) = filter is_conn_true (trace st0)
       \<and> watched_devices st = watched_devices st0"
proof -
  obtain f st1 where b: "connect_begin st0 = (f, (Outer, st1))"
    and r0: "registry_frame st0 st1"
    by (simp add: connect_begin_def send_cmd_def registry_frame_def)
  from assms(2) b have "run E rc sched (Outer, st1) = Some (m, st)" by simp
  from run_registry[OF this] r0 have "registry_frame st0 st"
    using registry_frame_trans by blast
  moreover have "connect_resume E (Inr v) rs st = (Raised UnsupportedFeatureError, st\<lparr>rio_version := v\<rparr>)"
    using assms(1) by (simp add: connect_resume_def)
  ultimately show ?thesis by (simp add: registry_frame_def)
qed

theorem version_gate_witness:
  "\<not> is_fw_version_higher example_env (Some ''1.00.00'') (minimum_api_support example_env)
   \<and> (\<exists>st. run example_env True
              [Got, WakeQueue None, WakeNet (Recv (Utf8 ''S'')),
               Got, WakeQueue None, WakeNet (Recv (Utf8 ''S VERSION=\"1.00.00\"''))]
              (snd (connect_begin (snd (watch ''C[1].Z[1]'' init)))) = Some (Outer, st)
         \<and> results st 1 = Some (Inr (Some ''1.00.00'')) \<and> cmd_queue st = []
         \<and> connect_resume example_env (Inr (Some ''1.00.00'')) [] st
            = (Raised UnsupportedFeatureError, st\<lparr>rio_version := Some ''1.00.00''\<rparr>)
         \<and> \<not> connected st
         \<and> filter is_conn_true (trace st) = [])"
proof -
  let ?st0 = "snd (watch ''C[1].Z[1]'' init)"
  let ?sched = "[Got, WakeQueue None, WakeNet (Recv (Utf8 ''S'')),
               Got, WakeQueue None, WakeNet (Recv (Utf8 ''S VERSION=\"1.00.00\"''))]"
  have low: "\<not> is_fw_version_higher example_env (Some ''1.00.00'') (minimum_api_support example_env)"
    by code_simp
  have "map_option (\<lambda>cfg. (fst cfg, results (snd cfg) 1, cmd_queue (snd cfg)))
          (run example_env True ?sched (snd (connect_begin ?st0)))
        = Some (Outer, Some (Inr (Some ''1.00.00'')), [])"
    by code_simp
  then obtain st where r: "run example_env True ?sched (snd (connect_begin ?st0)) = Some (Outer, st)"
    and v: "results st 1 = Some (Inr (Some ''1.00.00''))" and q: "cmd_queue st = []"
    by auto
  have c0: "\<not> connected ?st0" "trace ?st0 = []"
    by (simp_all add: watch_def send_cmd_def init_def)
  note g = version_gate[OF low r, where rs = "[]"]
  from g have g1: "connect_resume example_env (Inr (Some ''1.00.00'')) [] st
            = (Raised UnsupportedFeatureError, st\<lparr>rio_version := Some ''1.00.00''\<rparr>)"
    by (rule conjunct1)
  from g c0(1) have g2: "\<not> connected st" by blast
  from g c0(2) have g3: "filter is_conn_true (trace st) = []" by simp
  from r v q low g1 g2 g3 show ?thesis by blast
qed

subsection \<open>The source-to-zone fan-out\<close>

lemma fetch_current_source_call_all [simp]:
  "fetch_current_source E (call_all cbs d k v st) z = fetch_current_source E st z"
  by (simp add: call_all_def)

lemma callbacks_get_call_all [simp]:
  "callbacks_get (call_all cbs d k v st) d' = callbacks_get st d'"
  by (simp add: call_all_def)

lemma source_callback_calls_zone:
  assumes "source_callback E d k v zs st = (None, st')" and "z \<in> set zs"
    and "fetch_current_source E st z = Inr src" and "source_device_str E (source_id src) = d"
  shows "\<exists>pre post. trace st' = trace st @ pre
           @ map (\<lambda>cb. Called cb d k v) (callbacks_get st (zone_dev E z)) @ post"
  using assms
proof (induction zs arbitrary: st)
  case Nil
  then show ?case by simp
next
  case (Cons y zs)
  from Cons.prems(1) obtain sy where fy: "fetch_current_source E st y = Inr sy"
    by (cases "fetch_current_source E st y") auto
  let ?st1 = "if source_device_str E (source_id sy) = d
             then call_all (callbacks_get st (zone_dev E y)) d k v st else st"
  from Cons.prems(1) fy have rec: "source_callback E d k v zs ?st1 = (None, st')" by simp
  from source_callback_frame[of E d k v zs ?st1] rec obtain tr where
    tr: "trace st' = trace ?st1 @ tr" by auto
  show ?case
  proof (cases "y = z")
    case True
    with fy Cons.prems(3,4) have "?st1 = call_all (callbacks_get st (zone_dev E z)) d k v st"
      by simp
    then have "trace ?st1 = trace st @ [] @ map (\<lambda>cb. Called cb d k v) (callbacks_get st (zone_dev E z))"
      by (simp add: call_all_def)
    with tr show ?thesis by (intro exI[of _ "[]"] exI[of _ tr]) simp
  next
    case False
    with Cons.prems(2) have zin: "z \<in> set zs" by simp
    have f1: "fetch_current_source E ?st1 z = Inr src" using Cons.prems(3) by simp
    from Cons.IH[OF rec zin f1 Cons.prems(4)] obtain pre post where
      pp: "trace st' = trace ?st1 @ pre
           @ map (\<lambda>cb. Called cb d k v) (callbacks_get ?st1 (zone_dev E z)) @ post" by blast
    obtain tr0 where t0: "trace ?st1 = trace st @ tr0"
      by (cases "source_device_str E (source_id sy) = d") (simp_all add: call_all_def)
    have cg: "callbacks_get ?st1 (zone_dev E z) = callbacks_get st (zone_dev E z)" by simp
    from pp t0 cg show ?thesis by (intro exI[of _ "tr0 @ pre"] exI[of _ post]) simp
  qed
qed

text \<open>
  C7, as the code has it. Let \<open>dev\<close> be the identifier of a source, starting with
  \<^verbatim>\<open>S\<close>, and let a store of \<open>V\<close> under \<open>K\<close> for \<open>dev\<close> complete without raising. Then the
  trace goes on with the write of \<open>V\<close> under the lower-cased \<open>K\<close>, then the callbacks
  registered for \<open>dev\<close> in registration order, then the calls of the zone loop; and for
  every known zone \<open>z\<close> whose current source, as cached once the value is written, is a
  source with identifier \<open>dev\<close>, the zone loop calls the callbacks registered for \<open>z\<close>, in
  registration order, each with \<open>dev\<close>, the lower-cased \<open>K\<close> and \<open>V\<close>.
\<close>

theorem source_fan_out:
  assumes "fst (store_cached_variable E dev K V st) = None"
    and "dev \<noteq> [] \<and> hd dev = CHR ''S''"
    and "z \<in> set (all_zones st)"
    and "fetch_current_source E (snd (store_cached_variable E dev K V st)) z = Inr src"
    and "source_device_str E (source_id src) = dev"
  shows "\<exists>rest. trace (snd (store_cached_variable E dev K V st))
           = trace st @ Stored dev (py_lower K) V
             # map (\<lambda>cb. Called cb dev (py_lower K) V) (callbacks_get st dev) @ rest
         \<and> sublist (map (\<lambda>cb. Called cb dev (py_lower K) V) (callbacks_get st (zone_dev E z))) rest"
proof -
  let ?k = "py_lower K"
  let ?st1 = "st\<lparr>dev_state := (dev_state st)(dev \<mapsto> (zone_state_of st dev)(?k \<mapsto> V)),
                   trace := trace st @ [Stored dev ?k V]\<rparr>"
  let ?st2 = "call_all (callbacks_get ?st1 dev) dev ?k V ?st1"
  let ?r = "store_cached_variable E dev K V st"
  obtain c cs where d: "dev = c # cs" "c = CHR ''S''" using assms(2) by (cases dev) auto
  then have eq: "?r = source_callback E dev ?k V (all_zones ?st2) ?st2"
    by (simp add: store_cached_variable_def Let_def)
  have az: "all_zones ?st2 = all_zones st" by (simp add: all_zones_def call_all_def)
  have cg: "callbacks_get ?st1 dev = callbacks_get st dev"
    and cgz: "callbacks_get ?st2 (zone_dev E z) = callbacks_get st (zone_dev E z)"
    by (simp_all add: callbacks_get_def call_all_def)
  have t2: "trace ?st2 = trace st @ Stored dev ?k V
             # map (\<lambda>cb. Called cb dev ?k V) (callbacks_get st dev)"
    unfolding cg by (simp add: call_all_def)
  from source_callback_frame[of E dev ?k V "all_zones ?st2" ?st2] eq obtain tr where
    fr: "snd ?r = ?st2\<lparr>trace := trace ?st2 @ tr\<rparr>" by auto
  have "fetch_current_source E (snd ?r) z = fetch_current_source E ?st2 z"
    unfolding fr by simp
  with assms(4) have f2: "fetch_current_source E ?st2 z = Inr src" by simp
  have sc: "source_callback E dev ?k V (all_zones ?st2) ?st2 = (None, snd ?r)"
    using eq assms(1) by (metis prod.collapse)
  from source_callback_calls_zone[OF sc _ f2 assms(5)] assms(3) az obtain pre post where
    "trace (snd ?r) = trace ?st2 @ pre
        @ map (\<lambda>cb. Called cb dev ?k V) (callbacks_get ?st2 (zone_dev E z)) @ post"
    by auto
  then have "trace (snd ?r) = trace st @ Stored dev ?k V
             # map (\<lambda>cb. Called cb dev ?k V) (callbacks_get st dev)
             @ (pre @ map (\<lambda>cb. Called cb dev ?k V) (callbacks_get st (zone_dev E z)) @ post)"
    unfolding cgz t2 by simp
  moreover have "sublist (map (\<lambda>cb. Called cb dev ?k V) (callbacks_get st (zone_dev E z)))
            (pre @ map (\<lambda>cb. Called cb dev ?k V) (callbacks_get st (zone_dev E z)) @ post)"
    by (auto simp: sublist_def)
  ultimately show ?thesis by blast
qed

theorem source_fan_out_witness:
  "fst (store_cached_variable example_env ''S[1]'' ''Name'' (Some ''Tuner'') tuned_zone) = None
   \<and> (\<exists>rest. trace (snd (store_cached_variable example_env ''S[1]'' ''Name'' (Some ''Tuner'') tuned_zone))
           = Stored ''S[1]'' ''name'' (Some ''Tuner'') # Called 5 ''S[1]'' ''name'' (Some ''Tuner'') # rest
         \<and> sublist [Called 7 ''S[1]'' ''name'' (Some ''Tuner'')] rest)"
proof -
  let ?z = "\<lparr>zone_controller_id = 1, zone_id = 1\<rparr>"
  let ?r = "store_cached_variable example_env ''S[1]'' ''Name'' (Some ''Tuner'') tuned_zone"
  have a1: "fst ?r = None" by code_simp
  have a2: "''S[1]'' \<noteq> [] \<and> hd ''S[1]'' = CHR ''S''" by simp
  have a3: "?z \<in> set (all_zones tuned_zone)" by (simp add: all_zones_def tuned_zone_def)
  have a4: "fetch_current_source example_env (snd ?r) ?z = Inr \<lparr>source_id = 1\<rparr>" by code_simp
  have a5: "source_device_str example_env (source_id \<lparr>source_id = 1\<rparr>) = ''S[1]''" by code_simp
  have l: "py_lower ''Name'' = ''name''" by code_simp
  have c1: "callbacks_get tuned_zone ''S[1]'' = [5]"
    by (simp add: callbacks_get_def tuned_zone_def)
  have zd: "zone_dev example_env ?z = ''C[1].Z[1]''" by code_simp
  have c2: "callbacks_get tuned_zone (zone_dev example_env ?z) = [7]"
    unfolding zd by (simp add: callbacks_get_def tuned_zone_def)
  have t: "trace tuned_zone = []" by (simp add: tuned_zone_def init_def)
  from source_fan_out[OF a1 a2 a3 a4 a5] show ?thesis
    unfolding l c1 c2 t using a1 by simp
qed

text \<open>
  The claim C7 has the callbacks called with the key \<open>K\<close> of the store. The key
  \<^verbatim>\<open>Name\<close> reaches the callback of the source and the callback of the zone as
  \<^verbatim>\<open>name\<close>: there is no call with \<^verbatim>\<open>Name\<close>.
\<close>

theorem callbacks_receive_lower_key:
  "trace (snd (store_cached_variable example_env ''S[1]'' ''Name'' (Some ''Tuner'') tuned_zone))
     = [Stored ''S[1]'' ''name'' (Some ''Tuner''), Called 5 ''S[1]'' ''name'' (Some ''Tuner''),
        Called 7 ''S[1]'' ''name'' (Some ''Tuner'')]
   \<and> Called 7 ''S[1]'' ''Name'' (Some ''Tuner'')
       \<notin> set (trace (snd (store_cached_variable example_env ''S[1]'' ''Name'' (Some ''Tuner'') tuned_zone)))"
  by code_simp

subsection \<open>The parser contract\<close>







end
